theory Spec2Isabelle
  imports Main "HOL-Library.Word"
begin

unbundle bit_operations_syntax

section \<open>Data model (light_wallet_server/db/data.h)\<close>

text \<open>
  The identifier types are C++ enum classes over fixed-width unsigned integers; they are
  modelled by the words of that width. Keys, hashes and key images are byte strings that
  the scanner only copies and compares.
\<close>

type_synonym bytes = "8 word list"
type_synonym account_id = "32 word"
type_synonym account_time = "32 word"
type_synonym block_id = "64 word"
type_synonym output_id = "64 word"
type_synonym public_key = bytes
type_synonym secret_key = bytes
type_synonym hash = bytes
type_synonym key_image = bytes
type_synonym rct_key = bytes

datatype account_status = kActive | kInactive | kHidden

record account_address =
  spend_public :: public_key
  view_public :: public_key

text \<open>\<open>db::account\<close>; the source fields \<open>id\<close>, \<open>access\<close>, \<open>address\<close> and \<open>key\<close> carry a prefix here.\<close>

record db_account =
  acc_id :: account_id
  acc_access :: account_time
  acc_address :: account_address
  acc_key :: secret_key
  scan_height :: block_id
  start_height :: block_id
  creation :: account_time

text \<open>
  \<open>enum class extra : std::uint8_t\<close>. A value of the enum is any byte (\<open>unpack\<close> and the
  scanner build values by bit operations), so the type is the byte and the enumerators
  are constants.
\<close>

type_synonym extra = "8 word"
type_synonym extra_and_length = "8 word"

definition kNone :: extra where "kNone = 0"
definition kCoinbase :: extra where "kCoinbase = 1"
definition kRingct :: extra where "kRingct = 2"
definition kCoinbaseAndRingct :: extra where "kCoinbaseAndRingct = 3"

text \<open>
  \<open>pack\<close>: \<open>assert(length <= 32)\<close>, then \<open>(uint8_t(val) & 0x7) | (length << 3)\<close> computed in
  \<open>int\<close> (both operands are promoted) and converted to the one-byte enum, which keeps the
  low eight bits. A failed assertion is the value \<open>None\<close>.
\<close>

definition pack :: "extra \<Rightarrow> 8 word \<Rightarrow> extra_and_length option" where
  "pack val len =
     (if len \<le> 32
      then Some (ucast (((ucast val :: 32 word) AND 7) OR push_bit 3 (ucast len :: 32 word)))
      else None)"

definition unpack :: "extra_and_length \<Rightarrow> extra \<times> 8 word" where
  "unpack val = (let real_val = val in (real_val AND 7, drop_bit 3 real_val))"

text \<open>\<open>db::output\<close> (the reserved bytes are left out) and \<open>db::spend\<close>.\<close>

record db_output =
  height :: block_id
  out_id :: output_id
  amount :: "64 word"
  timestamp :: "64 word"
  unlock_time :: "64 word"
  mixin_count :: "32 word"
  index :: "32 word"
  tx_hash :: hash
  tx_prefix_hash :: hash
  tx_public :: public_key
  ringct_mask :: rct_key
  extra :: extra_and_length
  payment_id :: bytes

record spend =
  spend_image :: key_image
  spend_mixin_count :: "32 word"

section \<open>Errors\<close>

text \<open>\<open>lws::error\<close> (error.h), the error codes an \<open>expect<T>\<close> can hold, and the exceptions thrown.\<close>

datatype lws_error =
    kAbortScan | kAccountExists | kBadAddress | kBadViewKey | kBadBlockchain
  | kBlockchainReorg | kCreateQueueMax | kDaemonConnectionFailure | kDuplicateRequest
  | kExceededBlockchainBuffer | kNoSuchAccount | kSystemClockInvalidRange

datatype error_code =
    Lws lws_error
  | Mzmq int
  | Other_error nat

datatype exn =
    Runtime_error string
  | Bad_numeric_cast
  | Out_of_range
  | Invalid_argument
  | Assertion_failed
  | System_error error_code

section \<open>In-memory account state (light_wallet_server/account.cpp)\<close>

record internal =
  address :: string
  int_id :: account_id
  pubs :: account_address
  view_key :: secret_key

text \<open>
  \<open>lws::account\<close>: the members \<open>received_\<close>, \<open>spends_\<close>, \<open>outputs_\<close> and \<open>height\<close>. The shared
  pointer \<open>immutable\<close> is null in a moved-from account.
\<close>

record account =
  immutable :: "internal option"
  received :: "output_id list"
  spends :: "(output_id \<times> spend) list"
  outputs :: "db_output list"
  acct_height :: block_id

text \<open>
  The constructor of \<open>account::internal\<close>. \<open>db::address_string\<close> (db/string.h), which
  writes the address in base58, is a parameter.
\<close>

definition make_internal :: "(account_address \<Rightarrow> string) \<Rightarrow> db_account \<Rightarrow> internal" where
  "make_internal address_string source =
     \<lparr> address = address_string (acc_address source), int_id = acc_id source,
       pubs = acc_address source, view_key = acc_key source \<rparr>"

text \<open>The private constructor \<open>account(immutable, height, received_)\<close>.\<close>

definition account_init :: "internal option \<Rightarrow> block_id \<Rightarrow> output_id list \<Rightarrow> account" where
  "account_init imm h received_param =
     \<lparr> immutable = imm, received = received_param, spends = [], outputs = [],
       acct_height = h \<rparr>"

text \<open>
  The public constructor \<open>account(db::account const& source, std::vector<db::output_id> received_)\<close>
  delegates to the private one with \<open>std::move(received_)\<close> and then runs
  \<open>std::sort(received_.begin(), received_.end())\<close>. In the body the name \<open>received_\<close> is the
  constructor's parameter, which hides the member and is empty after the move. The
  function returns the constructed object together with the parameter after the sort.
\<close>

definition account_ctor ::
  "(account_address \<Rightarrow> string) \<Rightarrow> db_account \<Rightarrow> output_id list \<Rightarrow> account \<times> output_id list" where
  "account_ctor address_string source received_param =
     (let this = account_init (Some (make_internal address_string source)) (scan_height source)
                   received_param;
          moved_from = [] :: output_id list
      in (this, sort moved_from))"

definition account_of ::
  "(account_address \<Rightarrow> string) \<Rightarrow> db_account \<Rightarrow> output_id list \<Rightarrow> account" where
  "account_of address_string source received_param =
     fst (account_ctor address_string source received_param)"

definition updated :: "block_id \<Rightarrow> account \<Rightarrow> account" where
  "updated new_height a = a\<lparr> acct_height := new_height, spends := [], outputs := [] \<rparr>"

text \<open>
  \<open>std::lower_bound\<close> as the standard library computes it: bisection on the range
  \<open>[first, first + len)\<close>.
\<close>

function lower_bound_from :: "'a::linorder list \<Rightarrow> 'a \<Rightarrow> nat \<Rightarrow> nat \<Rightarrow> nat" where
  "lower_bound_from xs v first len =
     (if 0 < len
      then (let half = len div 2; middle = first + half
            in if xs ! middle < v
               then lower_bound_from xs v (middle + 1) (len - half - 1)
               else lower_bound_from xs v first half)
      else first)"
  by pat_completeness auto
termination
  by (relation "measure (\<lambda>(xs, v, first, len). len)") auto

declare lower_bound_from.simps [simp del]

definition lower_bound :: "'a::linorder list \<Rightarrow> 'a \<Rightarrow> nat" where
  "lower_bound xs v = lower_bound_from xs v 0 (length xs)"

text \<open>\<open>std::binary_search\<close>: \<open>i != last && !(value < *i)\<close> for \<open>i = lower_bound(...)\<close>.\<close>

definition binary_search :: "'a::linorder list \<Rightarrow> 'a \<Rightarrow> bool" where
  "binary_search xs v = (let i = lower_bound xs v in i \<noteq> length xs \<and> \<not> v < xs ! i)"

text \<open>\<open>std::vector::insert\<close> before position \<open>i\<close>.\<close>

definition vector_insert :: "nat \<Rightarrow> 'a \<Rightarrow> 'a list \<Rightarrow> 'a list" where
  "vector_insert i v xs = take i xs @ v # drop i xs"

definition add_out :: "db_output \<Rightarrow> account \<Rightarrow> account" where
  "add_out out a =
     (let outs = outputs a @ [out]
      in a\<lparr> outputs := outs,
            received := vector_insert (lower_bound (received a) (out_id out)) (out_id out)
                          (received a) \<rparr>)"

text \<open>
  \<open>check_spends\<close>: \<open>boost::numeric_cast<std::uint32_t>\<close> throws when
  \<open>max(1, new_spends.size()) - 1\<close> does not fit in 32 bits; the loop adds each offset to the
  64-bit \<open>id\<close>, which wraps around.
\<close>

fun check_spends_loop ::
  "key_image \<Rightarrow> 32 word \<Rightarrow> 64 word \<Rightarrow> 64 word list \<Rightarrow> account \<Rightarrow> account" where
  "check_spends_loop img mixin ident [] a = a"
| "check_spends_loop img mixin ident (offset # rest) a =
     (let ident' = ident + offset;
          a' = (if binary_search (received a) ident'
                then a\<lparr> spends := spends a @
                        [(ident', \<lparr> spend_image = img, spend_mixin_count = mixin \<rparr>)] \<rparr>
                else a)
      in check_spends_loop img mixin ident' rest a')"

definition numeric_cast_u32 :: "nat \<Rightarrow> exn + 32 word" where
  "numeric_cast_u32 n = (if n < 2 ^ 32 then Inr (of_nat n) else Inl Bad_numeric_cast)"

definition check_spends :: "key_image \<Rightarrow> 64 word list \<Rightarrow> account \<Rightarrow> exn + account" where
  "check_spends img new_spends a =
     (case numeric_cast_u32 (max 1 (length new_spends) - 1) of
        Inl e \<Rightarrow> Inl e
      | Inr mixin \<Rightarrow> Inr (check_spends_loop img mixin 0 new_spends a))"

section \<open>Daemon socket helpers (light_wallet_server/scanner.cpp, namespace mzmq)\<close>

definition EINTR :: int where "EINTR = 4"
definition EAGAIN :: int where "EAGAIN = 11"

text \<open>
  What one call of \<open>zmq_poll\<close> in \<open>mzmq::wait\<close> shows to the program: the two readings of
  \<open>std::chrono::steady_clock\<close> around it (in milliseconds), the return value, \<open>zmq_errno()\<close>,
  and whether \<open>items[1].revents\<close> (the parent socket) is set.
\<close>

record poll_result =
  poll_start :: int
  poll_end :: int
  ready :: int
  poll_errno :: int
  parent_revents :: bool

text \<open>
  Lines 200 and 201 of \<open>wait\<close>:
  \<open>spent = duration_cast<milliseconds>(start - end); timeout -= std::min(spent, timeout)\<close>.
\<close>

definition spent_update :: "int \<Rightarrow> int \<Rightarrow> int \<Rightarrow> int" where
  "spent_update start_time end_time timeout =
     (let spent = start_time - end_time in timeout - min spent timeout)"

text \<open>
  \<open>mzmq::wait(comm, events, timeout)\<close>. The behaviour of the i-th \<open>zmq_poll\<close> call is a function
  of the timeout it is given; the list holds the calls that the environment answers, and
  \<open>None\<close> says that the loop is still polling when the list ends.
\<close>

fun wait :: "(int \<Rightarrow> poll_result) list \<Rightarrow> int \<Rightarrow> (error_code + unit) option" where
  "wait [] timeout = None"
| "wait (poll # polls) timeout =
     (let p = poll timeout;
          timeout' = spent_update (poll_start p) (poll_end p) timeout
      in if ready p = 0 then Some (Inl (Lws kDaemonConnectionFailure))
         else if 0 < ready p
           then (if parent_revents p then Some (Inl (Lws kAbortScan)) else Some (Inr ()))
         else if poll_errno p \<noteq> EINTR then Some (Inl (Mzmq (poll_errno p)))
         else wait polls timeout')"

text \<open>
  A \<open>zmq_poll\<close> that a signal interrupts after \<open>d\<close> milliseconds, unless the timeout it was
  given ends first (then it returns 0).
\<close>

definition interrupted_after :: "int \<Rightarrow> int \<Rightarrow> poll_result" where
  "interrupted_after d timeout =
     (if timeout \<le> d
      then \<lparr> poll_start = 0, poll_end = timeout, ready = 0, poll_errno = 0,
             parent_revents = False \<rparr>
      else \<lparr> poll_start = 0, poll_end = d, ready = - 1, poll_errno = EINTR,
             parent_revents = False \<rparr>)"

text \<open>The result of \<open>mzmq::send\<close>: \<open>true\<close>, \<open>false\<close> (scan aborted), or an exception.\<close>

datatype send_result = Sent | Send_aborted | Send_throws exn

section \<open>Authentication (light_wallet_server/rest_server.cpp)\<close>

definition is_hidden :: "account_status \<Rightarrow> bool" where
  "is_hidden status = (case status of kActive \<Rightarrow> False | kInactive \<Rightarrow> False | kHidden \<Rightarrow> True)"

text \<open>
  \<open>key_check\<close>. \<open>crypto::secret_key_to_public_key\<close> belongs to the cryptography library and is
  a parameter: \<open>None\<close> when it returns false, else the public key it writes.
\<close>

definition key_check ::
  "(secret_key \<Rightarrow> public_key option) \<Rightarrow> account_address \<Rightarrow> secret_key \<Rightarrow> bool" where
  "key_check secret_key_to_public_key user k =
     (case secret_key_to_public_key k of
        None \<Rightarrow> False
      | Some verify \<Rightarrow> if verify \<noteq> view_public user then False else True)"

section \<open>Chain sync (scanner.cpp, \<open>sync_chain\<close>)\<close>

text \<open>
  One evaluation of the condition and body of \<open>while (zmq_send(...) < 0)\<close> or
  \<open>while (zmq_recvmsg(...) < 0)\<close>: whether the call failed, \<open>scanner::is_running()\<close>, whether
  \<open>sync_rpc_timeout\<close> has passed since \<open>start\<close>, and \<open>zmq_errno()\<close>.
\<close>

record attempt =
  call_failed :: bool
  is_running :: bool
  timed_out :: bool
  zmq_errno :: int

fun io_loop :: "attempt list \<Rightarrow> (error_code + unit) option" where
  "io_loop [] = None"
| "io_loop (a # rest) =
     (if \<not> call_failed a then Some (Inr ())
      else if \<not> is_running a then Some (Inl (Lws kAbortScan))
      else if timed_out a then Some (Inl (Lws kDaemonConnectionFailure))
      else if zmq_errno a = EINTR then io_loop rest
      else if zmq_errno a \<noteq> EAGAIN then Some (Inl (Mzmq (zmq_errno a)))
      else io_loop rest)"

record get_hashes_response =
  resp_start_height :: "64 word"
  hashes :: "hash list"

text \<open>
  What the environment does during one pass of the \<open>for (;;)\<close> loop of \<open>sync_chain\<close>: the send
  attempts, the errno of a failed \<open>zmq_msg_init\<close>, the receive attempts, the result of
  \<open>unpack_message\<close> and the result of \<open>disk.sync_chain\<close>.
\<close>

record sync_round =
  send_attempts :: "attempt list"
  msg_init_failure :: "int option"
  recv_attempts :: "attempt list"
  unpacked :: "error_code + get_hashes_response"
  disk_sync_chain :: "block_id \<Rightarrow> hash list \<Rightarrow> error_code + unit"

text \<open>
  The loop \<open>for (num = 0; num < 10; ++num)\<close> that splices the last element of \<open>resp->hashes\<close>
  in front of \<open>loc\<close>: \<open>front\<close> is what stands before \<open>loc\<close> so far.
\<close>

fun splice_loop :: "nat \<Rightarrow> hash list \<Rightarrow> hash list \<Rightarrow> hash list" where
  "splice_loop 0 front hs = front"
| "splice_loop (Suc n) front hs =
     (if hs = [] then front else splice_loop n (front @ [last hs]) (butlast hs))"

text \<open>
  \<open>known_hashes.erase(begin, --end)\<close> keeps the last element, \<open>loc\<close> points at it, and the
  spliced hashes go before it.
\<close>

definition next_known_hashes :: "hash list \<Rightarrow> hash list \<Rightarrow> hash list" where
  "next_known_hashes known_hashes resp_hashes = splice_loop 10 [] resp_hashes @ [last known_hashes]"

text \<open>
  One pass of the loop body with a non-empty locator: \<open>Inl r\<close> when the function returns
  \<open>r\<close>, \<open>Inr known\<close> when the loop goes on with the new locator, \<open>None\<close> when a send or
  receive loop is still running at the end of the environment's answers.
\<close>

definition sync_chain_round ::
  "hash list \<Rightarrow> sync_round \<Rightarrow> ((error_code + unit) + hash list) option" where
  "sync_chain_round known_hashes r =
     (case io_loop (send_attempts r) of
        None \<Rightarrow> None
      | Some (Inl e) \<Rightarrow> Some (Inl (Inl e))
      | Some (Inr _) \<Rightarrow>
         (case msg_init_failure r of
            Some err \<Rightarrow> Some (Inl (Inl (Mzmq err)))
          | None \<Rightarrow>
             (case io_loop (recv_attempts r) of
                None \<Rightarrow> None
              | Some (Inl e) \<Rightarrow> Some (Inl (Inl e))
              | Some (Inr _) \<Rightarrow>
                 (case unpacked r of
                    Inl e \<Rightarrow> Some (Inl (Inl e))
                  | Inr resp \<Rightarrow>
                     if length (hashes resp) \<le> 1 \<or> last (hashes resp) = hd known_hashes
                     then Some (Inl (Inr ()))
                     else (case disk_sync_chain r (resp_start_height resp) (hashes resp) of
                             Inl e \<Rightarrow> Some (Inl (Inl e))
                           | Inr _ \<Rightarrow>
                               Some (Inr (next_known_hashes known_hashes (hashes resp))))))))"

fun sync_chain_loop :: "hash list \<Rightarrow> sync_round list \<Rightarrow> (error_code + unit) option" where
  "sync_chain_loop known_hashes rounds =
     (if known_hashes = [] then Some (Inl (Lws kBadBlockchain))
      else (case rounds of
              [] \<Rightarrow> None
            | r # rest \<Rightarrow>
               (case sync_chain_round known_hashes r of
                  None \<Rightarrow> None
                | Some (Inl result) \<Rightarrow> Some result
                | Some (Inr known') \<Rightarrow> sync_chain_loop known' rest)))"

declare sync_chain_loop.simps [simp del]

text \<open>
  \<open>sync_chain\<close>: \<open>disk.start_read()\<close> and \<open>reader->get_chain_sync()\<close> are results of the storage
  (\<open>Inl\<close> the error), then the loop.
\<close>

definition sync_chain ::
  "(error_code + (error_code + hash list)) \<Rightarrow> sync_round list \<Rightarrow> (error_code + unit) option" where
  "sync_chain start_read rounds =
     (case start_read of
        Inl e \<Rightarrow> Some (Inl e)
      | Inr get_chain_sync \<Rightarrow>
         (case get_chain_sync of
            Inl e \<Rightarrow> Some (Inl e)
          | Inr chain \<Rightarrow> sync_chain_loop chain rounds))"

section \<open>Transactions and the scanner (scanner.cpp, \<open>scan_transaction\<close>)\<close>

text \<open>
  The parts of \<open>cryptonote::transaction\<close> that \<open>scan_transaction\<close> reads. The field
  \<open>amount\<close> of an output, and \<open>unlock_time\<close> and \<open>extra\<close> of a transaction, carry a prefix
  here, and \<open>mask\<close> of a \<open>ctkey\<close> a suffix.
\<close>

datatype txin =
    txin_gen nat
  | txin_to_script
  | txin_to_scripthash
  | is_txin_to_key: txin_to_key (in_amount: "64 word") (key_offsets: "64 word list")
      (k_image: key_image)

datatype txout_target =
    txout_to_script
  | txout_to_scripthash
  | txout_to_key (key: public_key)

record tx_out =
  out_amount :: "64 word"
  target :: txout_target

record ctkey =
  dest :: rct_key
  mask_key :: rct_key

record ecdhTuple =
  ecdh_mask :: rct_key
  ecdh_amount :: rct_key

record transaction =
  version :: nat
  tx_unlock_time :: "64 word"
  vin :: "txin list"
  vout :: "tx_out list"
  tx_extra :: bytes
  outPk :: "ctkey list"
  ecdhInfo :: "ecdhTuple list"

text \<open>
  The functions of the cryptonote and crypto libraries that \<open>scan_transaction\<close> calls are
  parameters. \<open>find_tx_pub_key\<close> stands for \<open>parse_tx_extra\<close> followed by
  \<open>find_tx_extra_field_by_type\<close> for the \<open>tx_extra_pub_key\<close> field and \<open>find_extra_nonce\<close> for
  the same with \<open>tx_extra_nonce\<close>. A function that returns false and leaves its result
  unwritten is \<open>None\<close>; \<open>get_transaction_hash\<close> gives its flag and what is in the hash after
  the call.
\<close>

record crypto =
  find_tx_pub_key :: "bytes \<Rightarrow> public_key option"
  generate_key_derivation :: "public_key \<Rightarrow> secret_key \<Rightarrow> bytes option"
  derive_public_key :: "bytes \<Rightarrow> nat \<Rightarrow> public_key \<Rightarrow> public_key option"
  get_transaction_prefix_hash :: "transaction \<Rightarrow> hash"
  get_transaction_hash :: "transaction \<Rightarrow> bool \<times> hash"
  decode_amount :: "rct_key \<Rightarrow> ecdhTuple \<Rightarrow> bytes \<Rightarrow> nat \<Rightarrow> (64 word \<times> rct_key) option"
  find_extra_nonce :: "bytes \<Rightarrow> bytes option"
  get_payment_id_from_tx_extra_nonce :: "bytes \<Rightarrow> hash option"
  get_encrypted_payment_id_from_tx_extra_nonce :: "bytes \<Rightarrow> bytes option"

text \<open>
  The locals of \<open>scan_transaction\<close> that live across outputs and across users: the optional
  \<open>tx_hash\<close> (a parameter), \<open>prefix_hash\<close> and \<open>payment_id\<close> (length and bytes).
\<close>

record scan_state =
  st_tx_hash :: "hash option"
  st_prefix_hash :: "hash option"
  st_payment_id :: "(8 word \<times> bytes) option"

text \<open>\<open>std::vector::at\<close>.\<close>

definition at :: "'a list \<Rightarrow> nat \<Rightarrow> exn + 'a" where
  "at xs i = (if i < length xs then Inr (xs ! i) else Inl Out_of_range)"

text \<open>
  The block \<open>if (!payment_id) { ... }\<close>: the length and the 32 bytes of the \<open>payment_id\<close>
  union after it (a short id fills the first eight bytes).
\<close>

definition load_payment_id :: "crypto \<Rightarrow> transaction \<Rightarrow> scan_state \<Rightarrow> 8 word \<times> bytes" where
  "load_payment_id c tx st =
     (case st_payment_id st of
        Some pid \<Rightarrow> pid
      | None \<Rightarrow>
         (case find_extra_nonce c (tx_extra tx) of
            None \<Rightarrow> (0, replicate 32 0)
          | Some nonce \<Rightarrow>
             (case get_payment_id_from_tx_extra_nonce c nonce of
                Some long_id \<Rightarrow> (32, long_id)
              | None \<Rightarrow>
                 (case get_encrypted_payment_id_from_tx_extra_nonce c nonce of
                    Some short_id \<Rightarrow> (8, short_id @ replicate 24 0)
                  | None \<Rightarrow> (0, replicate 32 0)))))"

text \<open>
  The construction of the \<open>db::output\<close> and the call of \<open>add_out\<close> (lines 429 to 449) for a
  received output with its final \<open>amount\<close>, \<open>mask\<close> and \<open>ext\<close>. The initialisers run in order:
  \<open>out_ids.at(index)\<close>, the two \<open>numeric_cast\<close>s, \<open>pack\<close>.
\<close>

definition store_output ::
  "transaction \<Rightarrow> block_id \<Rightarrow> 64 word \<Rightarrow> 64 word list \<Rightarrow> public_key \<Rightarrow> nat \<Rightarrow> nat \<Rightarrow>
   64 word \<Rightarrow> rct_key \<Rightarrow> extra \<Rightarrow> hash \<Rightarrow> hash \<Rightarrow> 8 word \<times> bytes \<Rightarrow> account \<Rightarrow> exn + account" where
  "store_output tx h ts out_ids pub_key ring_size idx amt msk ext txh prefix pid user =
     (case at out_ids idx of
        Inl e \<Rightarrow> Inl e
      | Inr oid \<Rightarrow>
     (case numeric_cast_u32 (max 1 ring_size - 1) of
        Inl e \<Rightarrow> Inl e
      | Inr mixin \<Rightarrow>
     (case numeric_cast_u32 idx of
        Inl e \<Rightarrow> Inl e
      | Inr idx32 \<Rightarrow>
     (case pack ext (fst pid) of
        None \<Rightarrow> Inl Assertion_failed
      | Some packed \<Rightarrow>
         Inr (add_out
           \<lparr> height = h, out_id = oid, amount = amt, timestamp = ts,
             unlock_time = tx_unlock_time tx, mixin_count = mixin, index = idx32,
             tx_hash = txh, tx_prefix_hash = prefix,
             tx_public = pub_key, ringct_mask = msk, extra = packed,
             payment_id = snd pid \<rparr> user)))))"

text \<open>
  The body of \<open>for (auto const& out : tx.vout)\<close> for the output at \<open>idx\<close>. The state is
  \<open>ext\<close>, the shared locals and the user; \<open>continue\<close> returns the state reached so far, an
  exception is \<open>Inl\<close>. A failed \<open>get_transaction_hash\<close> leaves \<open>tx_hash\<close> engaged.
\<close>

definition scan_output ::
  "crypto \<Rightarrow> transaction \<Rightarrow> block_id \<Rightarrow> 64 word \<Rightarrow> 64 word list \<Rightarrow> public_key \<Rightarrow> bytes \<Rightarrow>
   nat \<Rightarrow> public_key \<Rightarrow> nat \<Rightarrow> tx_out \<Rightarrow> extra \<times> scan_state \<times> account \<Rightarrow>
   exn + extra \<times> scan_state \<times> account" where
  "scan_output c tx h ts out_ids pub_key derived ring_size user_spend_public idx out s =
     (case s of (ext, st, user) \<Rightarrow>
     (case target out of
        txout_to_script \<Rightarrow> Inr s
      | txout_to_scripthash \<Rightarrow> Inr s
      | txout_to_key out_key \<Rightarrow>
         (let was_received =
                (case derive_public_key c derived idx user_spend_public of
                   None \<Rightarrow> False
                 | Some derived_pub \<Rightarrow> derived_pub = out_key)
          in if \<not> was_received then Inr s
             else
               (let prefix = (case st_prefix_hash st of
                                None \<Rightarrow> get_transaction_prefix_hash c tx
                              | Some p \<Rightarrow> p);
                    hashed = (case st_tx_hash st of
                                None \<Rightarrow> get_transaction_hash c tx
                              | Some t \<Rightarrow> (True, t));
                    txh = snd hashed;
                    st2 = st\<lparr> st_prefix_hash := Some prefix, st_tx_hash := Some txh \<rparr>
                in if \<not> fst hashed then Inr (ext, st2, user)
                   else if out_amount out = 0
                   then
                     (case at (outPk tx) idx of
                        Inl e \<Rightarrow> Inl e
                      | Inr pk \<Rightarrow>
                     (case at (ecdhInfo tx) idx of
                        Inl e \<Rightarrow> Inl e
                      | Inr info \<Rightarrow>
                     (case decode_amount c (mask_key pk) info derived idx of
                        None \<Rightarrow> Inr (ext, st2, user)
                      | Some decrypted \<Rightarrow>
                         (let ext' = ext OR kRingct;
                              pid = load_payment_id c tx st2;
                              st3 = st2\<lparr> st_payment_id := Some pid \<rparr>
                          in (case store_output tx h ts out_ids pub_key ring_size idx
                                     (fst decrypted) (snd decrypted) ext' txh prefix pid user of
                                Inl e \<Rightarrow> Inl e
                              | Inr user' \<Rightarrow> Inr (ext', st3, user'))))))
                   else
                     (let pid = load_payment_id c tx st2;
                          st3 = st2\<lparr> st_payment_id := Some pid \<rparr>
                      in (case store_output tx h ts out_ids pub_key ring_size idx
                                 (out_amount out) (replicate 32 0) ext txh prefix pid user of
                            Inl e \<Rightarrow> Inl e
                          | Inr user' \<Rightarrow> Inr (ext, st3, user')))))))"

text \<open>
  The loop over \<open>tx.vout\<close> from index \<open>idx\<close> on. The result pairs the exception, if one was
  thrown, with the state at that moment: the user was modified in place.
\<close>

fun scan_outputs ::
  "crypto \<Rightarrow> transaction \<Rightarrow> block_id \<Rightarrow> 64 word \<Rightarrow> 64 word list \<Rightarrow> public_key \<Rightarrow> bytes \<Rightarrow>
   nat \<Rightarrow> public_key \<Rightarrow> nat \<Rightarrow> tx_out list \<Rightarrow> extra \<times> scan_state \<times> account \<Rightarrow>
   exn option \<times> extra \<times> scan_state \<times> account" where
  "scan_outputs c tx h ts out_ids pub_key derived ring_size sp idx [] s = (None, s)"
| "scan_outputs c tx h ts out_ids pub_key derived ring_size sp idx (out # rest) s =
     (case scan_output c tx h ts out_ids pub_key derived ring_size sp idx out s of
        Inl e \<Rightarrow> (Some e, s)
      | Inr s' \<Rightarrow>
          scan_outputs c tx h ts out_ids pub_key derived ring_size sp (idx + 1) rest s')"

text \<open>
  The loop over \<open>tx.vin\<close>: each \<open>txin_to_key\<close> input sets \<open>ring_size\<close> and calls
  \<open>check_spends\<close>.
\<close>

fun scan_inputs :: "txin list \<Rightarrow> nat \<Rightarrow> account \<Rightarrow> exn option \<times> nat \<times> account" where
  "scan_inputs [] ring_size user = (None, ring_size, user)"
| "scan_inputs (txin_to_key amt offsets img # rest) ring_size user =
     (case check_spends img offsets user of
        Inl e \<Rightarrow> (Some e, length offsets, user)
      | Inr user' \<Rightarrow> scan_inputs rest (length offsets) user')"
| "scan_inputs (_ # rest) ring_size user = scan_inputs rest ring_size user"

text \<open>
  The body of \<open>for (account& user : users)\<close>. \<open>user.view_key()\<close> and \<open>user.spend_public()\<close>
  throw on a moved-from account.
\<close>

definition scan_user ::
  "crypto \<Rightarrow> transaction \<Rightarrow> block_id \<Rightarrow> 64 word \<Rightarrow> 64 word list \<Rightarrow> public_key \<Rightarrow>
   scan_state \<Rightarrow> account \<Rightarrow> exn option \<times> scan_state \<times> account" where
  "scan_user c tx h ts out_ids pub_key st user =
     (if h \<le> acct_height user then (None, st, user)
      else
        (case immutable user of
           None \<Rightarrow> (Some Invalid_argument, st, user)
         | Some imm \<Rightarrow>
        (case generate_key_derivation c pub_key (view_key imm) of
           None \<Rightarrow> (Some (Runtime_error ''Key derivation failed''), st, user)
         | Some derived \<Rightarrow>
        (case scan_inputs (vin tx) 0 user of
           (Some e, ring_size, user1) \<Rightarrow> (Some e, st, user1)
         | (None, ring_size, user1) \<Rightarrow>
            (let ext = (if ring_size = 0 then kCoinbase else kNone);
                 r = scan_outputs c tx h ts out_ids pub_key derived ring_size
                       (spend_public (pubs imm)) 0 (vout tx) (ext, st, user1)
             in (fst r, fst (snd (snd r)), snd (snd (snd r))))))))"

fun scan_users ::
  "crypto \<Rightarrow> transaction \<Rightarrow> block_id \<Rightarrow> 64 word \<Rightarrow> 64 word list \<Rightarrow> public_key \<Rightarrow>
   scan_state \<Rightarrow> account list \<Rightarrow> exn option \<times> account list" where
  "scan_users c tx h ts out_ids pub_key st [] = (None, [])"
| "scan_users c tx h ts out_ids pub_key st (user # rest) =
     (case scan_user c tx h ts out_ids pub_key st user of
        (Some e, st', user') \<Rightarrow> (Some e, user' # rest)
      | (None, st', user') \<Rightarrow>
          (let r = scan_users c tx h ts out_ids pub_key st' rest
           in (fst r, user' # snd r)))"

text \<open>
  \<open>scan_transaction(users, height, timestamp, tx_hash, tx, out_ids)\<close>: the exception that ends
  the call, if any, and the users as the call leaves them.
\<close>

definition scan_transaction ::
  "crypto \<Rightarrow> account list \<Rightarrow> block_id \<Rightarrow> 64 word \<Rightarrow> hash option \<Rightarrow> transaction \<Rightarrow>
   64 word list \<Rightarrow> exn option \<times> account list" where
  "scan_transaction c users h ts tx_hash_arg tx out_ids =
     (if 2 < version tx then (Some (Runtime_error ''Unsupported tx version''), users)
      else
        (case find_tx_pub_key c (tx_extra tx) of
           None \<Rightarrow> (None, users)
         | Some pub_key \<Rightarrow>
            scan_users c tx h ts out_ids pub_key
              \<lparr> st_tx_hash = tx_hash_arg, st_prefix_hash = None, st_payment_id = None \<rparr>
              users))"

section \<open>The scan loop (scanner.cpp, \<open>scan_loop\<close>)\<close>

record block =
  blk_timestamp :: "64 word"
  miner_tx :: transaction
  tx_hashes :: "hash list"

record block_with_transactions =
  blk :: block
  transactions :: "transaction list"

text \<open>\<open>GetBlocksFast::Response\<close>.\<close>

record get_blocks_response =
  gb_start_height :: "64 word"
  blocks :: "block_with_transactions list"
  output_indices :: "64 word list list list"

text \<open>
  How the first part of one pass of \<open>while (!self.update && scanner::is_running())\<close> (lines
  495 to 533) ends: the thread function returns, an exception reaches the handler, the
  loop continues with the next pass, or the pass goes on to scan the response.
\<close>

datatype fetch_outcome =
    Fetch_return
  | Fetch_throw exn
  | Fetch_continue
  | Fetch_scan get_blocks_response

text \<open>
  The first part of one pass. \<open>req_start\<close> is \<open>req.start_height\<close>; the result of
  \<open>mzmq::receive\<close>, of the \<open>mzmq::send\<close> that follows it and of \<open>mzmq::wait\<close> come from the
  environment. The function returns \<open>req.start_height\<close> after the pass with the outcome.
  The rest of the pass (lines 535 to 615) does not assign \<open>req.start_height\<close>.
\<close>

definition scan_loop_fetch ::
  "64 word \<Rightarrow> (error_code + get_blocks_response) \<Rightarrow> send_result \<Rightarrow> (error_code + unit) \<Rightarrow>
   64 word \<times> fetch_outcome" where
  "scan_loop_fetch req_start received_resp sent waited =
     (case received_resp of
        Inl e \<Rightarrow>
          if e = Lws kAbortScan then (req_start, Fetch_return)
          else if e = Lws kDaemonConnectionFailure
          then (case sent of
                  Sent \<Rightarrow> (req_start, Fetch_continue)
                | Send_aborted \<Rightarrow> (req_start, Fetch_return)
                | Send_throws x \<Rightarrow> (req_start, Fetch_throw x))
          else (req_start, Fetch_throw (System_error e))
      | Inr resp \<Rightarrow>
          if blocks resp = []
          then (req_start, Fetch_throw (Runtime_error ''Daemon unexpectedly returned zero blocks''))
          else if gb_start_height resp \<noteq> req_start then (req_start, Fetch_return)
          else
            (let req_start' = gb_start_height resp + of_nat (length (blocks resp)) - 1
             in (case sent of
                   Send_aborted \<Rightarrow> (req_start', Fetch_return)
                 | Send_throws x \<Rightarrow> (req_start', Fetch_throw x)
                 | Sent \<Rightarrow>
                     if length (blocks resp) \<le> 1
                     then (if waited = Inl (Lws kAbortScan) then (req_start', Fetch_return)
                           else (req_start', Fetch_continue))
                     else (req_start', Fetch_scan resp))))"

section \<open>The unspent outputs request (rest_server.cpp, \<open>get_unspent_outs\<close>)\<close>

text \<open>The fields that the \<open>request\<close> format reads from the JSON body.\<close>

record unspent_request =
  req_address :: account_address
  req_view_key :: secret_key
  req_amount :: "64 word"
  req_mixin :: "32 word option"
  req_use_dust :: "bool option"
  req_dust_threshold :: "64 word option"

text \<open>
  The operations of \<open>db::storage_reader\<close> that the handler calls; each returns an
  \<open>expect\<close> (\<open>Inl\<close> the error).
\<close>

record storage_reader =
  get_account :: "account_address \<Rightarrow> error_code + account_status \<times> db_account"
  get_outputs :: "account_id \<Rightarrow> error_code + db_output list"
  get_spends :: "output_id \<Rightarrow> error_code + spend list"

text \<open>
  The loop \<open>for (db::output const& out : outputs->make_range())\<close> with the locals \<open>received\<close>
  and \<open>unspent\<close>.
\<close>

fun collect_unspent ::
  "storage_reader \<Rightarrow> 64 word \<Rightarrow> 32 word \<Rightarrow> db_output list \<Rightarrow>
   64 word \<times> (db_output \<times> key_image list) list \<Rightarrow>
   error_code + 64 word \<times> (db_output \<times> key_image list) list" where
  "collect_unspent reader threshold mixin [] acc = Inr acc"
| "collect_unspent reader threshold mixin (out # rest) acc =
     (if amount out < threshold \<or> mixin_count out < mixin
      then collect_unspent reader threshold mixin rest acc
      else
        (case get_spends reader (out_id out) of
           Inl e \<Rightarrow> Inl e
         | Inr found \<Rightarrow>
             collect_unspent reader threshold mixin rest
               (fst acc + amount out, snd acc @ [(out, map spend_image found)])))"

text \<open>
  \<open>get_unspent_outs\<close>. The parsed request (or the parse error), \<open>disk.start_read()\<close>, the
  key derivation and the formatter are parameters: \<open>generate_body\<close> stands for the call
  of \<open>generate_body\<close> with the \<open>response\<close> format, which holds the user's public spend
  key and the view key, and its three arguments. The result pairs \<open>ctx.logged_in\<close> after
  the call with the returned \<open>expect<std::string>\<close>.
\<close>

definition get_unspent_outs ::
  "(secret_key \<Rightarrow> public_key option) \<Rightarrow>
   (public_key \<Rightarrow> secret_key \<Rightarrow> 64 word \<Rightarrow> 64 word \<Rightarrow>
      (db_output \<times> key_image list) list \<Rightarrow> error_code + string) \<Rightarrow>
   (error_code + unspent_request) \<Rightarrow> (error_code + storage_reader) \<Rightarrow> bool \<Rightarrow>
   bool \<times> (error_code + string)" where
  "get_unspent_outs secret_key_to_public_key generate_body root start_read logged_in =
     (case root of
        Inl e \<Rightarrow> (logged_in, Inl e)
      | Inr req \<Rightarrow>
     if \<not> key_check secret_key_to_public_key (req_address req) (req_view_key req)
     then (logged_in, Inl (Lws kBadViewKey))
     else
     (case start_read of
        Inl e \<Rightarrow> (logged_in, Inl e)
      | Inr reader \<Rightarrow>
     (case get_account reader (req_address req) of
        Inl e \<Rightarrow> (logged_in, Inl e)
      | Inr user \<Rightarrow>
     if is_hidden (fst user) then (logged_in, Inl (Lws kNoSuchAccount))
     else
     (case get_outputs reader (acc_id (snd user)) of
        Inl e \<Rightarrow> (True, Inl e)
      | Inr outs \<Rightarrow>
         (let threshold =
                (if (case req_use_dust req of Some b \<Rightarrow> b | None \<Rightarrow> False)
                    \<or> req_dust_threshold req = None
                 then 0
                 else (case req_dust_threshold req of Some t \<Rightarrow> t | None \<Rightarrow> 0));
              mixin = (case req_mixin req of None \<Rightarrow> 0 | Some m \<Rightarrow> m)
          in (case collect_unspent reader threshold mixin outs (0, []) of
                Inl e \<Rightarrow> (True, Inl e)
              | Inr (received_total, unspent) \<Rightarrow>
                  if received_total < req_amount req
                  then (True, Inl (Lws kNoSuchAccount))
                  else (True, generate_body (spend_public (acc_address (snd user)))
                                (req_view_key req) 0 received_total unspent)))))))"

section \<open>Specification-side definitions\<close>

text \<open>
  The absolute output ids that a list of ring-member offsets stands for: the running sums
  of the offsets in 64-bit arithmetic, starting from \<open>start\<close>.
\<close>

fun prefix_sums :: "64 word \<Rightarrow> 64 word list \<Rightarrow> 64 word list" where
  "prefix_sums start [] = []"
| "prefix_sums start (offset # rest) = (start + offset) # prefix_sums (start + offset) rest"

text \<open>
  An output carries a flag when the bit is set in the \<open>extra\<close> part of its packed byte, the
  test that rest_server.cpp applies to stored outputs.
\<close>

definition has_flag :: "extra \<Rightarrow> db_output \<Rightarrow> bool" where
  "has_flag flag out = (fst (unpack (extra out)) AND flag \<noteq> 0)"

text \<open>The transaction has a ring (to-key) input.\<close>

definition has_ring_inputs :: "transaction \<Rightarrow> bool" where
  "has_ring_inputs tx = (\<exists>inp \<in> set (vin tx). is_txin_to_key inp)"

text \<open>Every ring input of the transaction has at least one ring member.\<close>

definition rings_nonempty :: "transaction \<Rightarrow> bool" where
  "rings_nonempty tx = (\<forall>inp \<in> set (vin tx). is_txin_to_key inp \<longrightarrow> key_offsets inp \<noteq> [])"

text \<open>
  The flags of a stored output \<open>out\<close> of a transaction with outputs \<open>outs\<close>, when the flags
  start from \<open>base\<close>: \<open>out\<close> comes from the output at its \<open>index\<close>, its flags are \<open>base\<close> with
  or without \<open>kRingct\<close>, \<open>kRingct\<close> is there when the amount at its index is zero, and only
  when the amount at its index or at an earlier one is zero.
\<close>

definition flags_from :: "extra \<Rightarrow> tx_out list \<Rightarrow> db_output \<Rightarrow> bool" where
  "flags_from base outs out =
     (unat (index out) < length outs \<and>
      (fst (unpack (extra out)) = base \<or> fst (unpack (extra out)) = base OR kRingct) \<and>
      (out_amount (outs ! unat (index out)) = 0 \<longrightarrow>
         fst (unpack (extra out)) = base OR kRingct) \<and>
      (fst (unpack (extra out)) = base OR kRingct \<longrightarrow>
         (\<exists>j \<le> unat (index out). out_amount (outs ! j) = 0)))"

text \<open>
  The dust threshold and the mixin that \<open>get_unspent_outs\<close> filters with, and the outputs
  that pass the filter.
\<close>

definition dust_threshold_of :: "unspent_request \<Rightarrow> 64 word" where
  "dust_threshold_of req =
     (if req_use_dust req = Some True then 0
      else (case req_dust_threshold req of None \<Rightarrow> 0 | Some t \<Rightarrow> t))"

definition mixin_of :: "unspent_request \<Rightarrow> 32 word" where
  "mixin_of req = (case req_mixin req of None \<Rightarrow> 0 | Some m \<Rightarrow> m)"

definition passing :: "unspent_request \<Rightarrow> db_output list \<Rightarrow> db_output list" where
  "passing req outs =
     filter (\<lambda>out. dust_threshold_of req \<le> amount out \<and> mixin_of req \<le> mixin_count out) outs"

text \<open>Example values for the closed instances below.\<close>

definition example_account :: account where
  "example_account =
     \<lparr> immutable = None, received = [100], spends = [], outputs = [], acct_height = 0 \<rparr>"

text \<open>
  In a pass of the \<open>sync_chain\<close> loop the peer's response \<open>resp\<close> arrives: the send loop, the
  message initialisation, the receive loop and \<open>unpack_message\<close> all succeed.
\<close>

definition response_arrives :: "sync_round \<Rightarrow> get_hashes_response \<Rightarrow> bool" where
  "response_arrives r resp =
     (io_loop (send_attempts r) = Some (Inr ()) \<and> msg_init_failure r = None \<and>
      io_loop (recv_attempts r) = Some (Inr ()) \<and> unpacked r = Inr resp)"

definition ok_attempt :: attempt where
  "ok_attempt = \<lparr> call_failed = False, is_running = True, timed_out = False, zmq_errno = 0 \<rparr>"

definition example_round :: sync_round where
  "example_round =
     \<lparr> send_attempts = [ok_attempt], msg_init_failure = None, recv_attempts = [ok_attempt],
       unpacked = Inr \<lparr> resp_start_height = 5, hashes = [[3], [1]] \<rparr>,
       disk_sync_chain = (\<lambda>start hs. Inr ()) \<rparr>"

definition example_crypto :: crypto where
  "example_crypto =
     \<lparr> find_tx_pub_key = (\<lambda>e. Some [1]),
       generate_key_derivation = (\<lambda>p k. Some [2]),
       derive_public_key = (\<lambda>d i p. Some [3]),
       get_transaction_prefix_hash = (\<lambda>t. [4]),
       get_transaction_hash = (\<lambda>t. (True, [5])),
       decode_amount = (\<lambda>m e d i. Some (70, [6])),
       find_extra_nonce = (\<lambda>e. None),
       get_payment_id_from_tx_extra_nonce = (\<lambda>n. None),
       get_encrypted_payment_id_from_tx_extra_nonce = (\<lambda>n. None) \<rparr>"

definition example_user :: account where
  "example_user =
     \<lparr> immutable = Some \<lparr> address = ''4A'', int_id = 1,
                          pubs = \<lparr> spend_public = [8], view_public = [9] \<rparr>,
                          view_key = [10] \<rparr>,
       received = [], spends = [], outputs = [], acct_height = 0 \<rparr>"

text \<open>
  A transaction with one ring input of three members, a first output with amount zero
  and a second with amount 5, both with the key that \<open>example_crypto\<close> derives.
\<close>

definition example_tx :: transaction where
  "example_tx =
     \<lparr> version = 2, tx_unlock_time = 0,
       vin = [txin_to_key 0 [90, 5, 5] [11]],
       vout = [\<lparr> out_amount = 0, target = txout_to_key [3] \<rparr>,
               \<lparr> out_amount = 5, target = txout_to_key [3] \<rparr>],
       tx_extra = [],
       outPk = [\<lparr> dest = [], mask_key = [] \<rparr>, \<lparr> dest = [], mask_key = [] \<rparr>],
       ecdhInfo = [\<lparr> ecdh_mask = [], ecdh_amount = [] \<rparr>,
                   \<lparr> ecdh_mask = [], ecdh_amount = [] \<rparr>] \<rparr>"

text \<open>A transaction whose only input is a ring input without members.\<close>

definition example_tx_empty_ring :: transaction where
  "example_tx_empty_ring =
     \<lparr> version = 2, tx_unlock_time = 0,
       vin = [txin_to_key 0 [] [11]],
       vout = [\<lparr> out_amount = 5, target = txout_to_key [3] \<rparr>],
       tx_extra = [], outPk = [], ecdhInfo = [] \<rparr>"

definition example_block :: block_with_transactions where
  "example_block =
     \<lparr> blk = \<lparr> blk_timestamp = 0, miner_tx = example_tx_empty_ring, tx_hashes = [] \<rparr>,
       transactions = [] \<rparr>"

definition example_output :: db_output where
  "example_output =
     \<lparr> height = 1, out_id = 10, amount = 5, timestamp = 0, unlock_time = 0, mixin_count = 0,
       index = 0, tx_hash = [], tx_prefix_hash = [], tx_public = [], ringct_mask = [],
       extra = 0, payment_id = [] \<rparr>"

definition example_db_account :: db_account where
  "example_db_account =
     \<lparr> acc_id = 1, acc_access = 0,
       acc_address = \<lparr> spend_public = [8], view_public = [9] \<rparr>, acc_key = [10],
       scan_height = 0, start_height = 0, creation = 0 \<rparr>"

definition example_request :: unspent_request where
  "example_request =
     \<lparr> req_address = \<lparr> spend_public = [8], view_public = [9] \<rparr>, req_view_key = [10],
       req_amount = 10, req_mixin = None, req_use_dust = None, req_dust_threshold = None \<rparr>"

text \<open>A reader that finds the account and one output; \<open>get_spends\<close> answers with \<open>spends_of\<close>.\<close>

definition example_reader :: "(output_id \<Rightarrow> error_code + spend list) \<Rightarrow> storage_reader" where
  "example_reader spends_of =
     \<lparr> get_account = (\<lambda>a. Inr (kActive, example_db_account)),
       get_outputs = (\<lambda>i. Inr [example_output]),
       get_spends = spends_of \<rparr>"

text \<open>
  The output that \<open>scan_transaction\<close> stores for \<open>example_user\<close> at block 1 from a
  transaction scanned with \<open>example_crypto\<close>.
\<close>

definition example_stored ::
  "32 word \<Rightarrow> output_id \<Rightarrow> 64 word \<Rightarrow> rct_key \<Rightarrow> extra_and_length \<Rightarrow> 32 word \<Rightarrow> db_output" where
  "example_stored idx oid amt msk ext mixin =
     \<lparr> height = 1, out_id = oid, amount = amt, timestamp = 0, unlock_time = 0,
       mixin_count = mixin, index = idx, tx_hash = [5], tx_prefix_hash = [4],
       tx_public = [1], ringct_mask = msk, extra = ext, payment_id = replicate 32 0 \<rparr>"

section \<open>Properties of the extra byte\<close>

lemma word8_below_32_cases:
  fixes len :: "8 word"
  assumes "len < 32"
  shows "len = 0 \<or> len = 1 \<or> len = 2 \<or> len = 3 \<or> len = 4 \<or> len = 5
       \<or> len = 6 \<or> len = 7 \<or> len = 8 \<or> len = 9 \<or> len = 10 \<or> len = 11
       \<or> len = 12 \<or> len = 13 \<or> len = 14 \<or> len = 15 \<or> len = 16 \<or> len = 17
       \<or> len = 18 \<or> len = 19 \<or> len = 20 \<or> len = 21 \<or> len = 22 \<or> len = 23
       \<or> len = 24 \<or> len = 25 \<or> len = 26 \<or> len = 27 \<or> len = 28 \<or> len = 29
       \<or> len = 30 \<or> len = 31"
proof -
  have "unat len < 32" using assms by (simp add: word_less_nat_alt)
  then have "unat len = 0 \<or> unat len = 1 \<or> unat len = 2 \<or> unat len = 3 \<or> unat len = 4 \<or> unat len = 5
       \<or> unat len = 6 \<or> unat len = 7 \<or> unat len = 8 \<or> unat len = 9 \<or> unat len = 10 \<or> unat len = 11
       \<or> unat len = 12 \<or> unat len = 13 \<or> unat len = 14 \<or> unat len = 15 \<or> unat len = 16 \<or> unat len = 17
       \<or> unat len = 18 \<or> unat len = 19 \<or> unat len = 20 \<or> unat len = 21 \<or> unat len = 22 \<or> unat len = 23
       \<or> unat len = 24 \<or> unat len = 25 \<or> unat len = 26 \<or> unat len = 27 \<or> unat len = 28 \<or> unat len = 29
       \<or> unat len = 30 \<or> unat len = 31" by arith
  then show ?thesis by (simp add: word_unat_eq_iff)
qed

lemma pack_unpack_below_32:
  assumes "val \<in> {kNone, kCoinbase, kRingct, kCoinbaseAndRingct}" and "len < 32"
  shows "map_option unpack (pack val len) = Some (val, len)"
  using assms(1) word8_below_32_cases[OF assms(2)]
  unfolding pack_def unpack_def kNone_def kCoinbase_def kRingct_def kCoinbaseAndRingct_def
  by (elim disjE insertE emptyE; simp)

lemma unpack_length_below_32: "snd (unpack b) < 32"
proof -
  have "unat (drop_bit 3 b) = unat b div 8"
    by (simp add: drop_bit_eq_div unat_div)
  moreover have "unat b < 256" using unsigned_less[of b, where ?'a = nat] by simp
  ultimately have "unat (drop_bit 3 b) < 32" by simp
  then show ?thesis by (simp add: unpack_def word_less_nat_alt)
qed

text \<open>
  C2. The round trip \<open>unpack(pack(extra, length)) = (extra, length)\<close> holds for the lengths
  below 32 (\<open>pack_unpack_below_32\<close>). At length 32, which the assertion of \<open>pack\<close> admits
  and which the scanner passes for a long payment id, \<open>32 << 3\<close> is 256 and does not fit
  the byte: the unpacked length is 0. No byte unpacks to the length 32
  (\<open>unpack_length_below_32\<close>).
\<close>

theorem pack_length_32_lost:
  "map_option unpack (pack kCoinbase 32) = Some (kCoinbase, 0)"
  by (simp add: pack_def unpack_def kCoinbase_def)

section \<open>Properties of the account state\<close>

lemma lower_bound_from_spec:
  assumes "sorted xs" and "first + len \<le> length xs"
    and "\<forall>i<first. xs ! i < v"
    and "\<forall>i. first + len \<le> i \<and> i < length xs \<longrightarrow> v \<le> xs ! i"
  shows "first \<le> lower_bound_from xs v first len \<and> lower_bound_from xs v first len \<le> first + len
       \<and> (\<forall>i<lower_bound_from xs v first len. xs ! i < v)
       \<and> (\<forall>i. lower_bound_from xs v first len \<le> i \<and> i < length xs \<longrightarrow> v \<le> xs ! i)"
  using assms
proof (induction xs v first len rule: lower_bound_from.induct)
  case (1 xs v first len)
  show ?case
  proof (cases "0 < len")
    case False
    then have "lower_bound_from xs v first len = first"
      by (subst lower_bound_from.simps) simp
    then show ?thesis using False 1(5) 1(6) by simp
  next
    case True
    define half where "half = len div 2"
    define middle where "middle = first + half"
    have mid: "middle < length xs" "half < len" using True 1(4) by (auto simp: half_def middle_def)
    show ?thesis
    proof (cases "xs ! middle < v")
      case lt: True
      have a: "\<forall>i<middle + 1. xs ! i < v"
      proof (intro allI impI)
        fix i assume "i < middle + 1"
        then have "i \<le> middle" by simp
        then have "xs ! i \<le> xs ! middle" using 1(3) mid by (simp add: sorted_nth_mono)
        then show "xs ! i < v" using lt by simp
      qed
      have b: "middle + 1 + (len - half - 1) = first + len" using mid by (simp add: middle_def)
      have ih: "middle + 1 \<le> lower_bound_from xs v (middle + 1) (len - half - 1) \<and>
           lower_bound_from xs v (middle + 1) (len - half - 1) \<le> middle + 1 + (len - half - 1) \<and>
           (\<forall>i<lower_bound_from xs v (middle + 1) (len - half - 1). xs ! i < v) \<and>
           (\<forall>i. lower_bound_from xs v (middle + 1) (len - half - 1) \<le> i \<and> i < length xs \<longrightarrow> v \<le> xs ! i)"
        apply (rule 1(1)[OF True half_def middle_def lt 1(3)])
        using 1(4) 1(6) a b by auto
      have eq: "lower_bound_from xs v first len = lower_bound_from xs v (middle + 1) (len - half - 1)"
        using True lt by (simp add: lower_bound_from.simps[of xs v first len] half_def middle_def Let_def)
      show ?thesis unfolding eq using ih b by (auto simp: middle_def)
    next
      case ge: False
      have a: "\<forall>i. first + half \<le> i \<and> i < length xs \<longrightarrow> v \<le> xs ! i"
      proof (intro allI impI)
        fix i assume h: "first + half \<le> i \<and> i < length xs"
        then have "xs ! middle \<le> xs ! i" using 1(3) by (simp add: sorted_nth_mono middle_def)
        then show "v \<le> xs ! i" using ge by simp
      qed
      have ih: "first \<le> lower_bound_from xs v first half \<and>
           lower_bound_from xs v first half \<le> first + half \<and>
           (\<forall>i<lower_bound_from xs v first half. xs ! i < v) \<and>
           (\<forall>i. lower_bound_from xs v first half \<le> i \<and> i < length xs \<longrightarrow> v \<le> xs ! i)"
        apply (rule 1(2)[OF True half_def middle_def ge 1(3)])
        using 1(4) 1(5) a mid by auto
      have eq: "lower_bound_from xs v first len = lower_bound_from xs v first half"
        using True ge by (simp add: lower_bound_from.simps[of xs v first len] half_def middle_def Let_def)
      show ?thesis unfolding eq using ih mid by auto
    qed
  qed
qed

lemma lower_bound_spec:
  assumes "sorted xs"
  shows "lower_bound xs v \<le> length xs"
    and "\<forall>i<lower_bound xs v. xs ! i < v"
    and "\<forall>i. lower_bound xs v \<le> i \<and> i < length xs \<longrightarrow> v \<le> xs ! i"
proof -
  have "0 + length xs \<le> length xs" "\<forall>i<0. xs ! i < v"
       "\<forall>i. 0 + length xs \<le> i \<and> i < length xs \<longrightarrow> v \<le> xs ! i" by auto
  from lower_bound_from_spec[OF assms this]
  show "lower_bound xs v \<le> length xs"
    and "\<forall>i<lower_bound xs v. xs ! i < v"
    and "\<forall>i. lower_bound xs v \<le> i \<and> i < length xs \<longrightarrow> v \<le> xs ! i"
    unfolding lower_bound_def by simp_all
qed

lemma binary_search_iff:
  assumes "sorted xs"
  shows "binary_search xs v \<longleftrightarrow> v \<in> set xs"
proof
  let ?r = "lower_bound xs v"
  assume "binary_search xs v"
  then have r: "?r \<noteq> length xs" "\<not> v < xs ! ?r" by (auto simp: binary_search_def Let_def)
  then have lt: "?r < length xs" using lower_bound_spec(1)[OF assms, of v] by simp
  then have "v \<le> xs ! ?r" using lower_bound_spec(3)[OF assms, of v] by simp
  then have "xs ! ?r = v" using r(2) by simp
  then show "v \<in> set xs" using lt by (metis nth_mem)
next
  let ?r = "lower_bound xs v"
  assume "v \<in> set xs"
  then obtain j where j: "j < length xs" "xs ! j = v" by (auto simp: in_set_conv_nth)
  have "\<not> j < ?r" using lower_bound_spec(2)[OF assms, of v] j by auto
  then have rj: "?r \<le> j" by simp
  then have "xs ! ?r \<le> xs ! j" using assms j(1) by (rule_tac sorted_nth_mono)
  then have "\<not> v < xs ! ?r" using j by simp
  moreover have "?r \<noteq> length xs" using rj j by simp
  ultimately show "binary_search xs v" by (simp add: binary_search_def Let_def)
qed

lemma vector_insert_sorted:
  assumes "sorted xs"
  shows "sorted (vector_insert (lower_bound xs v) v xs)"
proof -
  let ?r = "lower_bound xs v"
  have a: "\<forall>x\<in>set (take ?r xs). x \<le> v"
  proof
    fix x assume "x \<in> set (take ?r xs)"
    then obtain i where "i < length (take ?r xs)" "take ?r xs ! i = x" by (auto simp: in_set_conv_nth)
    then have "i < ?r" "xs ! i = x" by auto
    then show "x \<le> v" using lower_bound_spec(2)[OF assms, of v] by auto
  qed
  have b: "\<forall>x\<in>set (drop ?r xs). v \<le> x"
  proof
    fix x assume "x \<in> set (drop ?r xs)"
    then obtain i where i: "i < length (drop ?r xs)" "drop ?r xs ! i = x" by (auto simp: in_set_conv_nth)
    then have "?r + i < length xs" "xs ! (?r + i) = x" by auto
    then show "v \<le> x" using lower_bound_spec(3)[OF assms, of v] by auto
  qed
  have c: "\<forall>x\<in>set (take ?r xs). \<forall>y\<in>set (drop ?r xs). x \<le> y"
    using a b by (meson order_trans)
  show ?thesis unfolding vector_insert_def
    using assms a b c by (simp add: sorted_append)
qed

lemma vector_insert_mset:
  "i \<le> length xs \<Longrightarrow> set (vector_insert i v xs) = insert v (set xs)"
  unfolding vector_insert_def
  by (metis append_take_drop_id list.simps(15) set_append Un_insert_right)

lemma add_out_sorted:
  "sorted (received a) \<Longrightarrow> sorted (received (add_out out a))"
  by (simp add: add_out_def Let_def vector_insert_sorted)


text \<open>
  C1. The constructor sorts its moved-from parameter and not the member: built from the
  ids \<open>[2, 1]\<close>, the account holds \<open>received_ = [2, 1]\<close>, which is not ascending, and the
  binary search of \<open>check_spends\<close> then misses the spend of output 2. (\<open>add_out\<close> does keep a
  sorted list sorted: \<open>add_out_sorted\<close>.)
\<close>

theorem account_ctor_received_unsorted:
  "received (account_of address_string source [2, 1]) = [2, 1]
   \<and> sorted (received (account_of address_string source [2, 1])) = False
   \<and> check_spends img [2] (account_of address_string source [2, 1])
       = Inr (account_of address_string source [2, 1])"
  by (simp add: account_of_def account_ctor_def account_init_def word_le_nat_alt
      check_spends_def numeric_cast_u32_def binary_search_def lower_bound_def
      lower_bound_from.simps)

lemma check_spends_loop_spec:
  assumes "sorted (received a)"
  shows "check_spends_loop img mixin start offs a =
    a\<lparr> spends := spends a @
        map (\<lambda>i. (i, \<lparr> spend_image = img, spend_mixin_count = mixin \<rparr>))
          (filter (\<lambda>i. i \<in> set (received a)) (prefix_sums start offs)) \<rparr>"
  using assms
proof (induction offs arbitrary: start a)
  case Nil
  then show ?case by simp
next
  case (Cons offset rest)
  show ?case
  proof (cases "start + offset \<in> set (received a)")
    case True
    let ?a' = "a\<lparr> spends := spends a @
                 [(start + offset, \<lparr> spend_image = img, spend_mixin_count = mixin \<rparr>)] \<rparr>"
    have s: "sorted (received ?a')" using Cons.prems by simp
    show ?thesis
      using True Cons.prems Cons.IH[OF s, of "start + offset"]
      by (simp add: binary_search_iff Let_def)
  next
    case False
    show ?thesis
      using False Cons.prems Cons.IH[OF Cons.prems, of "start + offset"]
      by (simp add: binary_search_iff Let_def)
  qed
qed

text \<open>
  C3. For every key image and every list of at most \<open>2 ^ 32\<close> ring-member
  offsets, \<open>check_spends\<close> on an account whose \<open>received_\<close> is sorted returns normally and
  appends to \<open>spends_\<close>, in offset order, one entry \<open>(id, {image, max(1, n) - 1})\<close> for each
  running sum \<open>id\<close> of the offsets (64-bit) that is in \<open>received_\<close>; nothing else of the
  account changes.
\<close>

theorem check_spends_appends:
  assumes "sorted (received a)" and "length new_spends \<le> 2 ^ 32"
  shows "check_spends img new_spends a =
    Inr (a\<lparr> spends := spends a @
        map (\<lambda>i. (i, \<lparr> spend_image = img,
                        spend_mixin_count = of_nat (max 1 (length new_spends) - 1) \<rparr>))
          (filter (\<lambda>i. i \<in> set (received a)) (prefix_sums 0 new_spends)) \<rparr>)
    \<and> unat (of_nat (max 1 (length new_spends) - 1) :: 32 word) = max 1 (length new_spends) - 1"
proof -
  have lt: "max 1 (length new_spends) - 1 < 2 ^ 32" using assms(2) by (auto simp: max_def)
  then have "max 1 (length new_spends) - 1 < 2 ^ LENGTH(32)" by simp
  then have "unat (of_nat (max 1 (length new_spends) - 1) :: 32 word) = max 1 (length new_spends) - 1"
    by (rule of_nat_inverse[OF refl])
  then show ?thesis using lt
    by (simp add: check_spends_def numeric_cast_u32_def check_spends_loop_spec[OF assms(1)])
qed

theorem check_spends_appends_witness:
  "sorted (received example_account) \<and> length [90, 5, 5 :: 64 word] \<le> 2 ^ 32
   \<and> check_spends [7] [90, 5, 5] example_account =
       Inr (example_account\<lparr> spends :=
              [(100, \<lparr> spend_image = [7], spend_mixin_count = 2 \<rparr>)] \<rparr>)"
  using check_spends_appends[of example_account "[90, 5, 5]" "[7]"]
  by (simp add: example_account_def)

text \<open>
  With more than \<open>2 ^ 32\<close> offsets the \<open>numeric_cast\<close> of the mixin throws and nothing is
  appended.
\<close>

lemma check_spends_too_long:
  "2 ^ 32 < length new_spends \<Longrightarrow> check_spends img new_spends a = Inl Bad_numeric_cast"
  by (auto simp: check_spends_def numeric_cast_u32_def max_def)

theorem check_spends_numeric_cast_counterexample:
  "check_spends [] (replicate 4294967297 0) example_account = Inl Bad_numeric_cast"
  by (simp add: check_spends_def numeric_cast_u32_def)

section \<open>Properties of the socket wait\<close>

lemma spent_update_never_shrinks:
  assumes "start_time \<le> end_time" and "0 \<le> timeout"
  shows "spent_update start_time end_time timeout = timeout + (end_time - start_time)"
  using assms by (simp add: spent_update_def min_def)

text \<open>
  C4. \<open>wait\<close> computes \<open>spent\<close> as \<open>start - end\<close>, which is never positive, so
  \<open>timeout -= min(spent, timeout)\<close> adds the elapsed time to the remaining timeout instead
  of taking it away (\<open>spent_update_never_shrinks\<close>): after a poll of 400 ms the timeout of
  1000 ms becomes 1400 ms, not 600 ms. With a poll that a signal interrupts every 400 ms
  the wait is still polling after five polls (2000 ms) and has not returned
  \<open>kDaemonConnectionFailure\<close>.
\<close>

theorem wait_timeout_grows:
  "spent_update 0 400 1000 = 1400
   \<and> wait (replicate 5 (interrupted_after 400)) 1000 = None"
  by (simp add: spent_update_def interrupted_after_def EINTR_def numeral_eq_Suc)

section \<open>Properties of the authentication check\<close>

text \<open>
  C5. For every address and every view key \<open>k\<close>, \<open>key_check\<close> returns true if and only if
  \<open>secret_key_to_public_key\<close> succeeds on \<open>k\<close> and the public key it gives equals
  \<open>addr.view_public\<close>.
\<close>

theorem key_check_iff:
  "key_check secret_key_to_public_key user k \<longleftrightarrow>
     (\<exists>verify. secret_key_to_public_key k = Some verify \<and> verify = view_public user)"
  by (simp add: key_check_def split: option.split)

theorem key_check_iff_witness:
  "key_check (\<lambda>k. if k = [1] then Some [9] else None)
      \<lparr> spend_public = [8], view_public = [9] \<rparr> [1]
   \<and> \<not> key_check (\<lambda>k. if k = [1] then Some [9] else None)
      \<lparr> spend_public = [8], view_public = [9] \<rparr> [2]"
  using key_check_iff[of "\<lambda>k. if k = [1] then Some [9] else None"
      "\<lparr> spend_public = [8], view_public = [9] \<rparr>" "[1]"]
    key_check_iff[of "\<lambda>k. if k = [1] then Some [9] else None"
      "\<lparr> spend_public = [8], view_public = [9] \<rparr>" "[2]"]
  by simp

section \<open>Properties of the chain sync\<close>

lemma sync_chain_round_success_iff:
  "sync_chain_round known r = Some (Inl (Inr ())) \<longleftrightarrow>
     (\<exists>resp. response_arrives r resp \<and>
        (length (hashes resp) \<le> 1 \<or> last (hashes resp) = hd known))"
  by (auto simp: sync_chain_round_def response_arrives_def
      split: option.splits sum.splits)

lemma sync_chain_round_next_nonempty:
  "sync_chain_round known r = Some (Inr known') \<Longrightarrow> known' \<noteq> []"
  by (auto simp: sync_chain_round_def next_known_hashes_def
      split: option.splits sum.splits if_splits)

lemma sync_chain_reads:
  "sync_chain (Inl e) rounds = Some (Inl e)"
  "sync_chain (Inr (Inl e)) rounds = Some (Inl e)"
  "sync_chain (Inr (Inr known)) rounds = sync_chain_loop known rounds"
  by (simp_all add: sync_chain_def)

lemma sync_chain_loop_step:
  "known \<noteq> [] \<Longrightarrow>
      (sync_chain_loop known (r # rest) = Some (Inr ()) \<longleftrightarrow>
             sync_chain_round known r = Some (Inl (Inr ()))
             \<or> (\<exists>known'. sync_chain_round known r = Some (Inr known')
                  \<and> sync_chain_loop known' rest = Some (Inr ())))"
  by (subst sync_chain_loop.simps) (auto split: option.splits sum.splits)

text \<open>
  C6. \<open>sync_chain\<close> fails with \<open>kBadBlockchain\<close> when the locator read from storage is
  empty. With a non-empty locator \<open>sync_chain\<close> runs the loop; a pass of the loop returns
  success exactly when the peer's response arrives and holds at most one hash or ends
  with the first hash of the locator sent; and \<open>sync_chain\<close> (as its loop) ends with success
  exactly when this pass does, or this pass goes on with a new, non-empty locator and the
  rest of the run ends with success. Without a further answer of the environment it has
  not returned.
\<close>

theorem sync_chain_success:
  "sync_chain_loop [] rounds = Some (Inl (Lws kBadBlockchain))
   \<and> sync_chain (Inr (Inr [])) rounds = Some (Inl (Lws kBadBlockchain))
   \<and> sync_chain (Inr (Inr known)) rounds = sync_chain_loop known rounds
   \<and> (known \<noteq> [] \<longrightarrow>
        (sync_chain_round known r = Some (Inl (Inr ())) \<longleftrightarrow>
           (\<exists>resp. response_arrives r resp \<and>
              (length (hashes resp) \<le> 1 \<or> last (hashes resp) = hd known)))
        \<and> (sync_chain_loop known (r # rest) = Some (Inr ()) \<longleftrightarrow>
             sync_chain_round known r = Some (Inl (Inr ()))
             \<or> (\<exists>known'. sync_chain_round known r = Some (Inr known')
                  \<and> sync_chain_loop known' rest = Some (Inr ())))
        \<and> (sync_chain (Inr (Inr known)) (r # rest) = Some (Inr ()) \<longleftrightarrow>
             (\<exists>resp. response_arrives r resp \<and>
                (length (hashes resp) \<le> 1 \<or> last (hashes resp) = hd known))
             \<or> (\<exists>known'. sync_chain_round known r = Some (Inr known') \<and> known' \<noteq> []
                  \<and> sync_chain (Inr (Inr known')) rest = Some (Inr ())))
        \<and> sync_chain (Inr (Inr known)) [] = None)"
proof -
  have a: "sync_chain_loop [] rounds = Some (Inl (Lws kBadBlockchain))"
    by (simp add: sync_chain_loop.simps)
  have b: "sync_chain (Inr (Inr [])) rounds = Some (Inl (Lws kBadBlockchain))"
    by (simp add: sync_chain_def a)
  have l: "sync_chain (Inr (Inr known)) rounds = sync_chain_loop known rounds"
    by (rule sync_chain_reads(3))
  have d: "sync_chain (Inr (Inr known)) (r # rest) = Some (Inr ()) \<longleftrightarrow>
             (\<exists>resp. response_arrives r resp \<and>
                (length (hashes resp) \<le> 1 \<or> last (hashes resp) = hd known))
             \<or> (\<exists>known'. sync_chain_round known r = Some (Inr known') \<and> known' \<noteq> []
                  \<and> sync_chain (Inr (Inr known')) rest = Some (Inr ()))"
    if "known \<noteq> []"
    unfolding sync_chain_reads(3) sync_chain_loop_step[OF that]
      sync_chain_round_success_iff
    using sync_chain_round_next_nonempty by blast
  have e: "sync_chain (Inr (Inr known)) [] = None" if "known \<noteq> []"
    using that by (simp add: sync_chain_reads(3) sync_chain_loop.simps)
  show ?thesis
    using a b l d e sync_chain_loop_step sync_chain_round_success_iff by blast
qed

theorem sync_chain_success_witness:
  "[[1]] \<noteq> ([] :: hash list)
   \<and> sync_chain_round [[1]] example_round = Some (Inl (Inr ()))
   \<and> sync_chain_loop [[1]] [example_round] = Some (Inr ())
   \<and> sync_chain (Inr (Inr [[1]])) [example_round] = Some (Inr ())
   \<and> sync_chain_round [[2]] example_round = Some (Inr [[1], [3], [2]])
   \<and> sync_chain_loop [[2]] [example_round] = None
   \<and> sync_chain (Inr (Inr [[2]])) [example_round] = None
   \<and> sync_chain (Inr (Inr [[2]])) [example_round, example_round] = Some (Inr ())"
  using sync_chain_success[of "[]" "[[1]]" example_round "[]"]
  by (simp add: example_round_def ok_attempt_def response_arrives_def sync_chain_round_def
      sync_chain_def sync_chain_loop.simps next_known_hashes_def numeral_eq_Suc)

section \<open>Properties of the transaction scan\<close>

lemma scan_users_length:
  "length (snd (scan_users c tx h ts out_ids pub_key st users)) = length users"
  by (induction users arbitrary: st) (auto split: prod.splits option.splits simp: Let_def)

lemma scan_user_skip:
  "h \<le> acct_height user \<Longrightarrow> scan_user c tx h ts out_ids pub_key st user = (None, st, user)"
  by (simp add: scan_user_def)

lemma scan_users_skip:
  "i < length users \<Longrightarrow> h \<le> acct_height (users ! i) \<Longrightarrow>
   snd (scan_users c tx h ts out_ids pub_key st users) ! i = users ! i"
proof (induction users arbitrary: st i)
  case Nil
  then show ?case by simp
next
  case (Cons user rest)
  show ?case
  proof (cases i)
    case 0
    then show ?thesis using Cons.prems by (simp add: scan_user_skip Let_def)
  next
    case (Suc j)
    then show ?thesis using Cons.prems Cons.IH[of j]
      by (auto split: prod.splits option.splits simp: Let_def)
  qed
qed

text \<open>
  C8. \<open>scan_transaction\<close> keeps the number of users, and every user whose scan height is
  at or above the height of the block being scanned is left exactly as it was
  (\<open>outputs_\<close>, \<open>spends_\<close>, \<open>received_\<close> and the scan height), also when the call ends with
  an exception.
\<close>

theorem scan_transaction_skips_scanned_users:
  "length (snd (scan_transaction c users h ts tx_hash_arg tx out_ids)) = length users
   \<and> (\<forall>i < length users. h \<le> acct_height (users ! i) \<longrightarrow>
         snd (scan_transaction c users h ts tx_hash_arg tx out_ids) ! i = users ! i)"
  by (simp add: scan_transaction_def scan_users_length scan_users_skip split: option.split)

theorem scan_transaction_skips_scanned_users_witness:
  "(1 :: 64 word) \<le> acct_height (example_user\<lparr> acct_height := 1 \<rparr>)
   \<and> snd (scan_transaction example_crypto [example_user\<lparr> acct_height := 1 \<rparr>] 1 0 None
            example_tx [10, 11]) ! 0 = example_user\<lparr> acct_height := 1 \<rparr>"
  using scan_transaction_skips_scanned_users[of example_crypto
      "[example_user\<lparr> acct_height := 1 \<rparr>]" 1 0 None example_tx "[10, 11]"]
  by simp


lemma low_three_bits:
  fixes a b :: "32 word"
  shows "(ucast (a OR push_bit 3 b) :: 8 word) AND mask 3 = ucast a AND mask 3"
  by (rule bit_word_eqI) (auto simp: bit_simps)

lemma pack_keeps_flags:
  assumes "ext \<in> {kNone, kCoinbase, kRingct, kCoinbaseAndRingct}" and "pack ext len = Some packed"
  shows "fst (unpack packed) = ext"
proof -
  have seven8: "(7::8 word) = mask 3" and seven32: "(7::32 word) = mask 3"
    by (simp_all add: mask_eq_exp_minus_1)
  have p: "packed = ucast (((ucast ext :: 32 word) AND 7) OR push_bit 3 (ucast len :: 32 word))"
    using assms(2) by (simp add: pack_def split: if_splits)
  have "packed AND 7 = (ucast ((ucast ext :: 32 word) AND mask 3) :: 8 word) AND mask 3"
    unfolding p seven8 seven32 by (rule low_three_bits)
  also have "\<dots> = ext AND mask 3"
    by (rule bit_word_eqI) (auto simp: bit_simps)
  also have "\<dots> = ext"
    using assms(1)
    by (auto simp: kNone_def kCoinbase_def kRingct_def kCoinbaseAndRingct_def mask_eq_exp_minus_1)
  finally show ?thesis by (simp add: unpack_def)
qed

lemma numeric_cast_u32_Inr:
  "numeric_cast_u32 n = Inr w \<Longrightarrow> unat w = n"
  by (auto simp: numeric_cast_u32_def unat_of_nat split: if_splits)

lemma outputs_add_out: "outputs (add_out out a) = outputs a @ [out]"
  by (simp add: add_out_def Let_def)

lemma store_output_Inr:
  assumes "store_output tx h ts out_ids pk rs idx amt msk ext txh prefix pid user = Inr user'"
    and "ext \<in> {kNone, kCoinbase, kRingct, kCoinbaseAndRingct}"
  shows "\<exists>out. outputs user' = outputs user @ [out] \<and> unat (index out) = idx
           \<and> fst (unpack (extra out)) = ext"
proof -
  from assms(1) obtain oid mixin idx32 packed where
    c: "numeric_cast_u32 idx = Inr idx32" "pack ext (fst pid) = Some packed"
    and u: "user' = add_out
           \<lparr> height = h, out_id = oid, amount = amt, timestamp = ts,
             unlock_time = tx_unlock_time tx, mixin_count = mixin, index = idx32,
             tx_hash = txh, tx_prefix_hash = prefix,
             tx_public = pk, ringct_mask = msk, extra = packed,
             payment_id = snd pid \<rparr> user"
    by (auto simp: store_output_def split: sum.splits option.splits)
  show ?thesis
    unfolding u outputs_add_out
    using numeric_cast_u32_Inr[OF c(1)] pack_keeps_flags[OF assms(2) c(2)] by simp
qed

lemma scan_output_cases:
  assumes "scan_output c tx h ts out_ids pk d rs sp idx out (ext, st, u) = Inr (ext', st', u')"
  obtains (skip) "u' = u" "ext' = ext"
  | (ringct) amt msk txh prefix pid where "out_amount out = 0" "ext' = ext OR kRingct"
      "store_output tx h ts out_ids pk rs idx amt msk ext' txh prefix pid u = Inr u'"
  | (plain) amt msk txh prefix pid where "out_amount out \<noteq> 0" "ext' = ext"
      "store_output tx h ts out_ids pk rs idx amt msk ext' txh prefix pid u = Inr u'"
  using assms
  by (auto simp: scan_output_def Let_def
      split: txout_target.splits option.splits sum.splits if_splits)

lemma base_flags:
  assumes "base \<in> {kNone, kCoinbase}"
  shows "base \<noteq> base OR kRingct"
    and "base \<in> {kNone, kCoinbase, kRingct, kCoinbaseAndRingct}"
    and "base OR kRingct \<in> {kNone, kCoinbase, kRingct, kCoinbaseAndRingct}"
    and "(base OR kRingct) OR kRingct = base OR kRingct"
  using assms by (auto simp: kNone_def kCoinbase_def kRingct_def kCoinbaseAndRingct_def)

lemma scan_outputs_flags:
  assumes "base \<in> {kNone, kCoinbase}"
  shows "all_outs = pre @ outs \<Longrightarrow> idx = length pre \<Longrightarrow>
    ext = base \<or> ext = base OR kRingct \<Longrightarrow>
    (ext = base OR kRingct \<longrightarrow> (\<exists>j<idx. out_amount (all_outs ! j) = 0)) \<Longrightarrow>
    scan_outputs c tx h ts out_ids pk d rs sp idx outs (ext, st, u) = (e, ext', st', u') \<Longrightarrow>
    \<exists>new. outputs u' = outputs u @ new \<and> (\<forall>out \<in> set new. flags_from base all_outs out)"
proof (induction outs arbitrary: pre idx ext st u)
  case Nil
  then show ?case by simp
next
  case (Cons out rest)
  note b = base_flags[OF assms]
  have idx: "idx < length all_outs" "all_outs ! idx = out"
    using Cons.prems(1,2) by simp_all
  show ?case
  proof (cases "scan_output c tx h ts out_ids pk d rs sp idx out (ext, st, u)")
    case (Inl x)
    then have "u' = u" using Cons.prems(5) by simp
    then show ?thesis by simp
  next
    case (Inr s1)
    obtain ext1 st1 u1 where s1: "s1 = (ext1, st1, u1)" by (cases s1) auto
    have rec: "scan_outputs c tx h ts out_ids pk d rs sp (idx + 1) rest (ext1, st1, u1)
               = (e, ext', st', u')"
      using Cons.prems(5) Inr s1 by simp
    have pre': "all_outs = (pre @ [out]) @ rest" "idx + 1 = length (pre @ [out])"
      using Cons.prems(1,2) by simp_all
    have step: "(ext1 = base \<or> ext1 = base OR kRingct)
        \<and> (ext1 = base OR kRingct \<longrightarrow> (\<exists>j<idx + 1. out_amount (all_outs ! j) = 0))
        \<and> (\<exists>new1. outputs u1 = outputs u @ new1
              \<and> (\<forall>o1 \<in> set new1. flags_from base all_outs o1))"
      using Inr[unfolded s1]
    proof (cases rule: scan_output_cases)
      case skip
      then show ?thesis using Cons.prems(3,4) by (auto intro: less_SucI)
    next
      case (ringct amt msk txh prefix pid)
      have e1: "ext1 = base OR kRingct" using ringct(2) Cons.prems(3) b(4) by auto
      have "ext1 \<in> {kNone, kCoinbase, kRingct, kCoinbaseAndRingct}" using e1 b(3) by simp
      from store_output_Inr[OF ringct(3) this] obtain o1 where
        o1: "outputs u1 = outputs u @ [o1]" "unat (index o1) = idx"
            "fst (unpack (extra o1)) = ext1" by blast
      have "flags_from base all_outs o1"
        unfolding flags_from_def using o1 e1 idx ringct(1) by auto
      moreover have "\<exists>j<idx + 1. out_amount (all_outs ! j) = 0"
        using idx ringct(1) by auto
      ultimately show ?thesis using e1 o1(1) by auto
    next
      case (plain amt msk txh prefix pid)
      have e1: "ext1 = base \<or> ext1 = base OR kRingct" using plain(2) Cons.prems(3) by simp
      then have "ext1 \<in> {kNone, kCoinbase, kRingct, kCoinbaseAndRingct}" using b(2,3) by auto
      from store_output_Inr[OF plain(3) this] obtain o1 where
        o1: "outputs u1 = outputs u @ [o1]" "unat (index o1) = idx"
            "fst (unpack (extra o1)) = ext1" by blast
      have prev: "ext1 = base OR kRingct \<longrightarrow> (\<exists>j<idx. out_amount (all_outs ! j) = 0)"
        using plain(2) Cons.prems(4) by simp
      have "flags_from base all_outs o1"
        unfolding flags_from_def using o1 e1 idx plain(1) prev
        by (auto intro: less_imp_le)
      moreover have "ext1 = base OR kRingct \<longrightarrow> (\<exists>j<idx + 1. out_amount (all_outs ! j) = 0)"
        using prev by (auto intro: less_SucI)
      ultimately show ?thesis using e1 o1(1) by auto
    qed
    then obtain new1 where n1: "outputs u1 = outputs u @ new1"
        "\<forall>o1 \<in> set new1. flags_from base all_outs o1"
      and inv: "ext1 = base \<or> ext1 = base OR kRingct"
        "ext1 = base OR kRingct \<longrightarrow> (\<exists>j<idx + 1. out_amount (all_outs ! j) = 0)"
      by blast
    from Cons.IH[OF pre' inv rec] obtain new2 where
      n2: "outputs u' = outputs u1 @ new2" "\<forall>o2 \<in> set new2. flags_from base all_outs o2"
      by blast
    have "outputs u' = outputs u @ (new1 @ new2)" using n1(1) n2(1) by simp
    moreover have "\<forall>o3 \<in> set (new1 @ new2). flags_from base all_outs o3"
      using n1(2) n2(2) by auto
    ultimately show ?thesis by blast
  qed
qed

lemma check_spends_loop_outputs:
  "outputs (check_spends_loop img mixin start offs a) = outputs a"
  by (induction offs arbitrary: start a) (simp_all add: Let_def)

lemma check_spends_outputs:
  "check_spends img offs a = Inr a' \<Longrightarrow> outputs a' = outputs a"
  by (auto simp: check_spends_def check_spends_loop_outputs split: sum.splits)

lemma scan_inputs_outputs:
  "scan_inputs ins rs u = (e, rs', u') \<Longrightarrow> outputs u' = outputs u"
proof (induction ins rs u rule: scan_inputs.induct)
  case (2 amt offsets img rest ring_size user)
  then show ?case
    by (auto split: sum.splits dest: check_spends_outputs)
qed auto

lemma scan_inputs_ring_size:
  "scan_inputs ins rs u = (None, rs', u') \<Longrightarrow>
   \<forall>inp \<in> set ins. is_txin_to_key inp \<longrightarrow> key_offsets inp \<noteq> [] \<Longrightarrow>
   rs' = 0 \<longleftrightarrow> rs = 0 \<and> \<not> (\<exists>inp \<in> set ins. is_txin_to_key inp)"
proof (induction ins rs u rule: scan_inputs.induct)
  case (2 amt offsets img rest ring_size user)
  then show ?case
    by (auto split: sum.splits)
qed auto

lemma scan_user_flags:
  assumes "scan_user c tx h ts out_ids pk st u = (e, st', u')" and "rings_nonempty tx"
  shows "\<exists>new. outputs u' = outputs u @ new \<and>
     (\<forall>out \<in> set new.
        flags_from (if has_ring_inputs tx then kNone else kCoinbase) (vout tx) out)"
proof (cases "h \<le> acct_height u")
  case True
  then show ?thesis using assms(1) by (simp add: scan_user_def)
next
  case False
  show ?thesis
  proof (cases "immutable u")
    case None
    then show ?thesis using assms(1) False by (simp add: scan_user_def)
  next
    case (Some imm)
    show ?thesis
    proof (cases "generate_key_derivation c pk (view_key imm)")
      case None
      then show ?thesis using assms(1) False Some by (simp add: scan_user_def)
    next
      case d: (Some derived)
      obtain e1 rs u1 where si: "scan_inputs (vin tx) 0 u = (e1, rs, u1)"
        by (cases "scan_inputs (vin tx) 0 u") auto
      have o1: "outputs u1 = outputs u" using scan_inputs_outputs[OF si] .
      show ?thesis
      proof (cases e1)
        case (Some x)
        then have "u' = u1" using assms(1) False \<open>immutable u = Some imm\<close> d si
          by (simp add: scan_user_def)
        then show ?thesis using o1 by simp
      next
        case None
        let ?base = "if rs = 0 then kCoinbase else kNone"
        have rs: "rs = 0 \<longleftrightarrow> \<not> has_ring_inputs tx"
          using scan_inputs_ring_size[OF si[unfolded None]] assms(2)
          by (simp add: rings_nonempty_def has_ring_inputs_def)
        obtain e2 ext2 st2 u2 where
          so: "scan_outputs c tx h ts out_ids pk derived rs (spend_public (pubs imm)) 0
                 (vout tx) (?base, st, u1) = (e2, ext2, st2, u2)"
          using prod_cases4 by blast
        have "u' = u2" using assms(1) False \<open>immutable u = Some imm\<close> d si None so
          by (simp add: scan_user_def Let_def)
        moreover have "\<exists>new. outputs u2 = outputs u1 @ new \<and>
            (\<forall>out \<in> set new. flags_from ?base (vout tx) out)"
        proof (rule scan_outputs_flags[where pre = "[]", OF _ _ _ _ _ so])
          show "?base \<in> {kNone, kCoinbase}" by simp
          then show "?base = ?base OR kRingct \<longrightarrow>
              (\<exists>j<0. out_amount (vout tx ! j) = 0)"
            using base_flags(1) by blast
        qed simp_all
        ultimately show ?thesis using o1 rs by auto
      qed
    qed
  qed
qed

lemma scan_users_flags:
  assumes "rings_nonempty tx"
  shows "i < length users \<Longrightarrow>
    \<exists>new. outputs (snd (scan_users c tx h ts out_ids pk st users) ! i) = outputs (users ! i) @ new \<and>
     (\<forall>out \<in> set new.
        flags_from (if has_ring_inputs tx then kNone else kCoinbase) (vout tx) out)"
proof (induction users arbitrary: st i)
  case Nil
  then show ?case by simp
next
  case (Cons user rest)
  obtain e1 st1 u1 where su: "scan_user c tx h ts out_ids pk st user = (e1, st1, u1)"
    using prod_cases3 by blast
  show ?case
  proof (cases i)
    case 0
    have "snd (scan_users c tx h ts out_ids pk st (user # rest)) ! 0 = u1"
      using su by (cases e1) (simp_all add: Let_def)
    then show ?thesis using 0 scan_user_flags[OF su assms] by simp
  next
    case (Suc j)
    then have j: "j < length rest" using Cons.prems by simp
    show ?thesis
    proof (cases e1)
      case None
      then have "snd (scan_users c tx h ts out_ids pk st (user # rest)) ! i
          = snd (scan_users c tx h ts out_ids pk st1 rest) ! j"
        using su Suc by (simp add: Let_def)
      then show ?thesis using Cons.IH[OF j, of st1] Suc by simp
    next
      case (Some x)
      then have "snd (scan_users c tx h ts out_ids pk st (user # rest)) ! i = rest ! j"
        using su Suc by simp
      then show ?thesis using Suc by simp
    qed
  qed
qed

lemma flags_from_has_flag:
  assumes "flags_from base outs out" and "base \<in> {kNone, kCoinbase}"
  shows "has_flag kCoinbase out \<longleftrightarrow> base = kCoinbase"
    and "has_flag kRingct out \<longleftrightarrow> fst (unpack (extra out)) = base OR kRingct"
  using assms
  by (auto simp: flags_from_def has_flag_def kNone_def kCoinbase_def kRingct_def)

text \<open>
  C7. For a transaction in which every ring (to-key) input has at least one
  ring member, every output that \<open>scan_transaction\<close> appends for a user carries the
  \<open>kCoinbase\<close> flag if and only if the transaction has no ring inputs; an appended output
  whose amount field is zero carries the \<open>kRingct\<close> flag; and an appended output carries
  \<open>kRingct\<close> only if its own amount field, or that of an earlier output of the
  transaction, is zero.
\<close>

theorem scan_transaction_extra_flags:
  assumes "rings_nonempty tx" and "i < length users"
  shows "\<exists>new.
     outputs (snd (scan_transaction c users h ts tx_hash_arg tx out_ids) ! i)
       = outputs (users ! i) @ new \<and>
     (\<forall>out \<in> set new.
        unat (index out) < length (vout tx) \<and>
        (has_flag kCoinbase out \<longleftrightarrow> \<not> has_ring_inputs tx) \<and>
        (out_amount (vout tx ! unat (index out)) = 0 \<longrightarrow> has_flag kRingct out) \<and>
        (has_flag kRingct out \<longrightarrow>
           (\<exists>j \<le> unat (index out). out_amount (vout tx ! j) = 0)))"
proof -
  let ?base = "if has_ring_inputs tx then kNone else kCoinbase"
  have b: "?base \<in> {kNone, kCoinbase}" by simp
  have nz: "kNone \<noteq> kCoinbase" by (simp add: kNone_def kCoinbase_def)
  have "\<exists>new.
     outputs (snd (scan_transaction c users h ts tx_hash_arg tx out_ids) ! i)
       = outputs (users ! i) @ new \<and>
     (\<forall>out \<in> set new. flags_from ?base (vout tx) out)"
  proof (cases "2 < version tx \<or> find_tx_pub_key c (tx_extra tx) = None")
    case True
    then have "snd (scan_transaction c users h ts tx_hash_arg tx out_ids) = users"
      by (auto simp: scan_transaction_def)
    then show ?thesis by simp
  next
    case False
    then obtain pk where "find_tx_pub_key c (tx_extra tx) = Some pk" by auto
    then show ?thesis using False scan_users_flags[OF assms]
      by (simp add: scan_transaction_def)
  qed
  then obtain new where n: "outputs (snd (scan_transaction c users h ts tx_hash_arg tx out_ids) ! i)
       = outputs (users ! i) @ new" "\<forall>out \<in> set new. flags_from ?base (vout tx) out"
    by blast
  have "\<forall>out \<in> set new.
        unat (index out) < length (vout tx) \<and>
        (has_flag kCoinbase out \<longleftrightarrow> \<not> has_ring_inputs tx) \<and>
        (out_amount (vout tx ! unat (index out)) = 0 \<longrightarrow> has_flag kRingct out) \<and>
        (has_flag kRingct out \<longrightarrow>
           (\<exists>j \<le> unat (index out). out_amount (vout tx ! j) = 0))"
  proof
    fix out assume "out \<in> set new"
    then have f: "flags_from ?base (vout tx) out" using n(2) by blast
    note hf = flags_from_has_flag[OF f b]
    have "has_flag kCoinbase out \<longleftrightarrow> \<not> has_ring_inputs tx"
      unfolding hf(1) using nz by auto
    then show "unat (index out) < length (vout tx) \<and>
        (has_flag kCoinbase out \<longleftrightarrow> \<not> has_ring_inputs tx) \<and>
        (out_amount (vout tx ! unat (index out)) = 0 \<longrightarrow> has_flag kRingct out) \<and>
        (has_flag kRingct out \<longrightarrow>
           (\<exists>j \<le> unat (index out). out_amount (vout tx ! j) = 0))"
      unfolding hf(2) using f by (simp add: flags_from_def)
  qed
  then show ?thesis using n(1) by blast
qed

theorem scan_transaction_extra_flags_witness:
  "rings_nonempty example_tx \<and> 0 < length [example_user]
   \<and> (\<exists>new.
     outputs (snd (scan_transaction example_crypto [example_user] 1 0 None example_tx [10, 11]) ! 0)
       = outputs ([example_user] ! 0) @ new \<and>
     (\<forall>out \<in> set new.
        unat (index out) < length (vout example_tx) \<and>
        (has_flag kCoinbase out \<longleftrightarrow> \<not> has_ring_inputs example_tx) \<and>
        (out_amount (vout example_tx ! unat (index out)) = 0 \<longrightarrow> has_flag kRingct out) \<and>
        (has_flag kRingct out \<longrightarrow>
           (\<exists>j \<le> unat (index out). out_amount (vout example_tx ! j) = 0))))"
proof -
  have r: "rings_nonempty example_tx"
    by (simp add: rings_nonempty_def example_tx_def)
  have l: "0 < length [example_user]" by simp
  show ?thesis
    using r l scan_transaction_extra_flags[OF r l, of example_crypto 1 0 None "[10, 11]"]
    by blast
qed

text \<open>
  Beyond these bounds the flags differ: a transaction whose ring input has no members
  gets \<open>kCoinbase\<close> although it has a ring input, and in \<open>example_tx\<close> the second output,
  with amount 5, gets \<open>kRingct\<close> because \<open>ext\<close> keeps the flag set by the first output.
\<close>

lemma ex_check_spends:
  "received u = [] \<Longrightarrow> check_spends img [90, 5, 5] u = Inr u"
  by (simp add: check_spends_def numeric_cast_u32_def binary_search_def lower_bound_def
      lower_bound_from.simps)

lemma ex_store_0:
  "store_output example_tx 1 0 [10, 11] [1] 3 0 amt msk 2 [5] [4] (0, replicate 32 0) u
   = Inr (add_out (example_stored 0 10 amt msk 2 2) u)"
  by (simp add: store_output_def at_def numeric_cast_u32_def pack_def
      example_stored_def example_tx_def)

lemma ex_store_1:
  "store_output example_tx 1 0 [10, 11] [1] 3 (Suc 0) amt msk 2 [5] [4] (0, replicate 32 0) u
   = Inr (add_out (example_stored 1 11 amt msk 2 2) u)"
  by (simp add: store_output_def at_def numeric_cast_u32_def pack_def
      example_stored_def example_tx_def)

lemma ex_scan_output_0:
  "scan_output example_crypto example_tx 1 0 [10, 11] [1] [2] 3 [8] 0
     \<lparr> out_amount = 0, target = txout_to_key [3] \<rparr>
     (0, \<lparr> st_tx_hash = None, st_prefix_hash = None, st_payment_id = None \<rparr>, u)
   = Inr (2, \<lparr> st_tx_hash = Some [5], st_prefix_hash = Some [4],
               st_payment_id = Some (0, replicate 32 0) \<rparr>,
          add_out (example_stored 0 10 70 [6] 2 2) u)"
  unfolding scan_output_def
  by (simp add: example_crypto_def load_payment_id_def kRingct_def at_def ex_store_0 Let_def)
    (simp add: example_tx_def)

lemma ex_scan_output_1:
  "scan_output example_crypto example_tx 1 0 [10, 11] [1] [2] 3 [8] (Suc 0)
     \<lparr> out_amount = 5, target = txout_to_key [3] \<rparr>
     (2, \<lparr> st_tx_hash = Some [5], st_prefix_hash = Some [4],
               st_payment_id = Some (0, replicate 32 0) \<rparr>, u)
   = Inr (2, \<lparr> st_tx_hash = Some [5], st_prefix_hash = Some [4],
               st_payment_id = Some (0, replicate 32 0) \<rparr>,
          add_out (example_stored 1 11 5 (replicate 32 0) 2 2) u)"
  unfolding scan_output_def
  by (simp add: example_crypto_def load_payment_id_def kRingct_def at_def ex_store_1 Let_def)

lemma ex_scan_user:
  "scan_user example_crypto example_tx 1 0 [10, 11] [1]
     \<lparr> st_tx_hash = None, st_prefix_hash = None, st_payment_id = None \<rparr> example_user
   = (None, \<lparr> st_tx_hash = Some [5], st_prefix_hash = Some [4],
               st_payment_id = Some (0, replicate 32 0) \<rparr>,
      add_out (example_stored 1 11 5 (replicate 32 0) 2 2)
        (add_out (example_stored 0 10 70 [6] 2 2) example_user))"
proof -
  have h: "\<not> (1 :: 64 word) \<le> acct_height example_user"
    and i: "immutable example_user = Some \<lparr> address = ''4A'', int_id = 1,
                          pubs = \<lparr> spend_public = [8], view_public = [9] \<rparr>,
                          view_key = [10] \<rparr>"
    and r: "received example_user = []"
    by (simp_all add: example_user_def)
  have ins: "scan_inputs (vin example_tx) 0 example_user = (None, 3, example_user)"
    by (simp add: example_tx_def ex_check_spends[OF r])
  have outs: "vout example_tx = [\<lparr> out_amount = 0, target = txout_to_key [3] \<rparr>,
               \<lparr> out_amount = 5, target = txout_to_key [3] \<rparr>]"
    by (simp add: example_tx_def)
  have g: "generate_key_derivation example_crypto [1] [10] = Some [2]"
    by (simp add: example_crypto_def)
  show ?thesis
    unfolding scan_user_def
    by (simp add: h i ins outs g kNone_def ex_scan_output_0 ex_scan_output_1)
qed

lemma ex_scan_transaction:
  "scan_transaction example_crypto [example_user] 1 0 None example_tx [10, 11]
   = (None, [add_out (example_stored 1 11 5 (replicate 32 0) 2 2)
        (add_out (example_stored 0 10 70 [6] 2 2) example_user)])"
proof -
  have "version example_tx = 2" "find_tx_pub_key example_crypto (tx_extra example_tx) = Some [1]"
    by (simp_all add: example_tx_def example_crypto_def)
  then show ?thesis
    by (simp add: scan_transaction_def ex_scan_user)
qed

lemma ex_scan_empty_ring:
  "scan_transaction example_crypto [example_user] 1 0 None example_tx_empty_ring [10]
   = (None, [add_out (example_stored 0 10 5 (replicate 32 0) 1 0) example_user])"
proof -
  have h: "\<not> (1 :: 64 word) \<le> acct_height example_user"
    and i: "immutable example_user = Some \<lparr> address = ''4A'', int_id = 1,
                          pubs = \<lparr> spend_public = [8], view_public = [9] \<rparr>,
                          view_key = [10] \<rparr>"
    by (simp_all add: example_user_def)
  have cs: "check_spends [11] [] example_user = Inr example_user"
    by (simp add: check_spends_def numeric_cast_u32_def)
  have ins: "scan_inputs (vin example_tx_empty_ring) 0 example_user = (None, 0, example_user)"
    by (simp add: example_tx_empty_ring_def cs)
  have outs: "vout example_tx_empty_ring = [\<lparr> out_amount = 5, target = txout_to_key [3] \<rparr>]"
    by (simp add: example_tx_empty_ring_def)
  have g: "generate_key_derivation example_crypto [1] [10] = Some [2]"
    by (simp add: example_crypto_def)
  have st: "store_output example_tx_empty_ring 1 0 [10] [1] 0 0 5 (replicate 32 0) 1 [5] [4]
              (0, replicate 32 0) example_user
            = Inr (add_out (example_stored 0 10 5 (replicate 32 0) 1 0) example_user)"
    by (simp add: store_output_def at_def numeric_cast_u32_def pack_def
        example_stored_def example_tx_empty_ring_def)
  have so: "scan_output example_crypto example_tx_empty_ring 1 0 [10] [1] [2] 0 [8] 0
     \<lparr> out_amount = 5, target = txout_to_key [3] \<rparr>
     (1, \<lparr> st_tx_hash = None, st_prefix_hash = None, st_payment_id = None \<rparr>, example_user)
   = Inr (1, \<lparr> st_tx_hash = Some [5], st_prefix_hash = Some [4],
               st_payment_id = Some (0, replicate 32 0) \<rparr>,
          add_out (example_stored 0 10 5 (replicate 32 0) 1 0) example_user)"
    unfolding scan_output_def
    by (simp add: example_crypto_def load_payment_id_def Let_def st)
  have su: "scan_user example_crypto example_tx_empty_ring 1 0 [10] [1]
     \<lparr> st_tx_hash = None, st_prefix_hash = None, st_payment_id = None \<rparr> example_user
   = (None, \<lparr> st_tx_hash = Some [5], st_prefix_hash = Some [4],
               st_payment_id = Some (0, replicate 32 0) \<rparr>,
      add_out (example_stored 0 10 5 (replicate 32 0) 1 0) example_user)"
    unfolding scan_user_def
    by (simp add: h i ins outs g kCoinbase_def so)
  have "version example_tx_empty_ring = 2"
    "find_tx_pub_key example_crypto (tx_extra example_tx_empty_ring) = Some [1]"
    by (simp_all add: example_tx_empty_ring_def example_crypto_def)
  then show ?thesis
    by (simp add: scan_transaction_def su)
qed

theorem scan_transaction_extra_flags_counterexample:
  "has_ring_inputs example_tx_empty_ring
   \<and> has_flag kCoinbase
       (outputs (snd (scan_transaction example_crypto [example_user] 1 0 None
                        example_tx_empty_ring [10]) ! 0) ! 0)
   \<and> out_amount (vout example_tx ! 1) = 5
   \<and> index (outputs (snd (scan_transaction example_crypto [example_user] 1 0 None
                        example_tx [10, 11]) ! 0) ! 1) = 1
   \<and> has_flag kRingct
       (outputs (snd (scan_transaction example_crypto [example_user] 1 0 None
                        example_tx [10, 11]) ! 0) ! 1)"
  unfolding ex_scan_empty_ring ex_scan_transaction
  by (simp add: has_ring_inputs_def has_flag_def unpack_def outputs_add_out example_stored_def
      example_user_def kCoinbase_def kRingct_def)
    (simp add: example_tx_empty_ring_def example_tx_def)

section \<open>Properties of the scan loop\<close>

lemma scan_loop_wrong_start_returns:
  "blocks resp \<noteq> [] \<Longrightarrow> gb_start_height resp \<noteq> req_start \<Longrightarrow>
   scan_loop_fetch req_start (Inr resp) sent waited = (req_start, Fetch_return)"
  by (simp add: scan_loop_fetch_def)

text \<open>
  C9. After every successful non-empty \<open>get_blocks_fast\<close> response whose
  \<open>start_height\<close> equals the \<open>start_height\<close> of the request, the scan loop sets the start
  height of the next request to the previous request's start height plus the number of
  returned blocks minus one, in 64-bit arithmetic (and so to that very number when it is
  below \<open>2 ^ 64\<close>).
\<close>

theorem scan_loop_next_start_height:
  assumes "blocks resp \<noteq> []" and "gb_start_height resp = req_start"
  shows "fst (scan_loop_fetch req_start (Inr resp) sent waited)
           = req_start + of_nat (length (blocks resp)) - 1
     \<and> (unat req_start + length (blocks resp) - 1 < 2 ^ 64 \<longrightarrow>
         unat (fst (scan_loop_fetch req_start (Inr resp) sent waited))
           = unat req_start + length (blocks resp) - 1)"
proof -
  have eq: "fst (scan_loop_fetch req_start (Inr resp) sent waited)
           = req_start + of_nat (length (blocks resp)) - 1"
    using assms by (simp add: scan_loop_fetch_def Let_def split: send_result.split)
  have "unat (fst (scan_loop_fetch req_start (Inr resp) sent waited))
           = unat req_start + length (blocks resp) - 1"
    if b: "unat req_start + length (blocks resp) - 1 < 2 ^ 64"
  proof -
    obtain m where m: "length (blocks resp) = Suc m"
      using assms(1) by (cases "blocks resp") auto
    have "req_start + of_nat (length (blocks resp)) - 1
          = (of_nat (unat req_start + length (blocks resp) - 1) :: 64 word)"
      unfolding m by simp
    moreover have "unat (of_nat (unat req_start + length (blocks resp) - 1) :: 64 word)
          = unat req_start + length (blocks resp) - 1"
      using b by (intro of_nat_inverse[OF refl]) simp
    ultimately show ?thesis using eq by simp
  qed
  then show ?thesis using eq by blast
qed

theorem scan_loop_next_start_height_witness:
  "blocks \<lparr> gb_start_height = 10, blocks = [example_block, example_block],
            output_indices = [[[10]], [[10]]] \<rparr> \<noteq> []
   \<and> gb_start_height \<lparr> gb_start_height = 10, blocks = [example_block, example_block],
            output_indices = [[[10]], [[10]]] \<rparr> = 10
   \<and> fst (scan_loop_fetch 10
            (Inr \<lparr> gb_start_height = 10, blocks = [example_block, example_block],
                   output_indices = [[[10]], [[10]]] \<rparr>) Sent (Inr ())) = 11"
  using scan_loop_next_start_height[of
      "\<lparr> gb_start_height = 10, blocks = [example_block, example_block], output_indices = [[[10]], [[10]]] \<rparr>"
      10 Sent "Inr ()"]
  by simp

text \<open>
  A non-empty response with another \<open>start_height\<close> ends the thread function and leaves
  \<open>req.start_height\<close> as it was: two blocks answered from height 11 to a request from
  height 10 give no next request from 11.
\<close>

theorem scan_loop_wrong_start_counterexample:
  "scan_loop_fetch 10
     (Inr \<lparr> gb_start_height = 11, blocks = [example_block, example_block],
            output_indices = [[[10]], [[10]]] \<rparr>) Sent (Inr ())
   = (10, Fetch_return)
   \<and> (10 :: 64 word) + of_nat (length [example_block, example_block]) - 1 = 11"
  by (simp add: scan_loop_fetch_def)

section \<open>Properties of the unspent outputs request\<close>

lemma unat_sum_list_le:
  fixes ws :: "64 word list"
  shows "unat (sum_list ws) \<le> sum_list (map unat ws)"
proof (induction ws)
  case Nil
  then show ?case by simp
next
  case (Cons w ws)
  have "unat (w + sum_list ws) \<le> unat w + unat (sum_list ws)"
    by (simp add: unat_word_ariths)
  then show ?case using Cons by simp
qed

lemma collect_unspent_ok:
  assumes "\<forall>out \<in> set (filter (\<lambda>out. threshold \<le> amount out \<and> mixin \<le> mixin_count out) outs).
             \<exists>found. get_spends reader (out_id out) = Inr found"
  shows "\<exists>unspent. collect_unspent reader threshold mixin outs acc
     = Inr (fst acc + sum_list (map amount
              (filter (\<lambda>out. threshold \<le> amount out \<and> mixin \<le> mixin_count out) outs)),
            unspent)"
  using assms
proof (induction outs arbitrary: acc)
  case Nil
  then show ?case by (cases acc) simp
next
  case (Cons out rest)
  show ?case
  proof (cases "threshold \<le> amount out \<and> mixin \<le> mixin_count out")
    case False
    then show ?thesis using Cons.IH[of acc] Cons.prems by (auto simp: not_le)
  next
    case True
    then obtain found where f: "get_spends reader (out_id out) = Inr found"
      using Cons.prems by auto
    have "\<forall>out \<in> set (filter (\<lambda>out. threshold \<le> amount out \<and> mixin \<le> mixin_count out) rest).
             \<exists>found. get_spends reader (out_id out) = Inr found"
      using Cons.prems by auto
    from Cons.IH[OF this, of "(fst acc + amount out, snd acc @ [(out, map spend_image found)])"]
    show ?thesis using True f by (auto simp: not_less add.assoc)
  qed
qed

lemma collect_unspent_error:
  "collect_unspent reader (dust_threshold_of req) (mixin_of req) outs (0, []) = Inl e \<Longrightarrow>
   key_check secret_key_to_public_key (req_address req) (req_view_key req) \<Longrightarrow>
   get_account reader (req_address req) = Inr (status, user) \<Longrightarrow>
   \<not> is_hidden status \<Longrightarrow>
   get_outputs reader (acc_id user) = Inr outs \<Longrightarrow>
   get_unspent_outs secret_key_to_public_key generate_body (Inr req) (Inr reader) logged_in
     = (True, Inl e)"
  by (auto simp: get_unspent_outs_def dust_threshold_of_def mixin_of_def split: option.splits)

lemma collect_unspent_first_failure:
  "threshold \<le> amount out \<Longrightarrow> mixin \<le> mixin_count out \<Longrightarrow>
   get_spends reader (out_id out) = Inl e \<Longrightarrow>
   collect_unspent reader threshold mixin (out # rest) acc = Inl e"
  by (simp add: leD)

text \<open>
  C10. When the request parses, the view key matches the address, the read
  transaction opens, the account is found and is not hidden, its outputs are read, the
  spends of every output that passes the dust-threshold and mixin filters are read, and
  the total amount of those outputs is strictly below the requested amount, then
  \<open>get_unspent_outs\<close> marks the context as logged in and fails with \<open>kNoSuchAccount\<close>.
\<close>

theorem get_unspent_outs_insufficient:
  assumes "root = Inr req"
    and "key_check secret_key_to_public_key (req_address req) (req_view_key req)"
    and "start_read = Inr reader"
    and "get_account reader (req_address req) = Inr (status, user)"
    and "\<not> is_hidden status"
    and "get_outputs reader (acc_id user) = Inr outs"
    and "\<forall>out \<in> set (passing req outs). \<exists>found. get_spends reader (out_id out) = Inr found"
    and "sum_list (map (\<lambda>out. unat (amount out)) (passing req outs)) < unat (req_amount req)"
  shows "get_unspent_outs secret_key_to_public_key generate_body root start_read logged_in
           = (True, Inl (Lws kNoSuchAccount))"
proof -
  have p: "filter (\<lambda>out. dust_threshold_of req \<le> amount out \<and> mixin_of req \<le> mixin_count out) outs
           = passing req outs"
    by (simp add: passing_def)
  obtain unspent where
    c: "collect_unspent reader (dust_threshold_of req) (mixin_of req) outs (0, [])
        = Inr (sum_list (map amount (passing req outs)), unspent)"
    using collect_unspent_ok[of "dust_threshold_of req" "mixin_of req" outs reader "(0, [])"]
      assms(7) unfolding p by auto
  have "unat (sum_list (map amount (passing req outs)))
          \<le> sum_list (map unat (map amount (passing req outs)))"
    by (rule unat_sum_list_le)
  also have "\<dots> = sum_list (map (\<lambda>out. unat (amount out)) (passing req outs))"
    by (simp add: comp_def)
  finally have lt: "sum_list (map amount (passing req outs)) < req_amount req"
    using assms(8) by (simp add: word_less_nat_alt)
  show ?thesis
    using assms(1-6) c lt
    by (auto simp: get_unspent_outs_def dust_threshold_of_def mixin_of_def
        split: option.splits)
qed

theorem get_unspent_outs_insufficient_witness:
  "get_unspent_outs (\<lambda>k. Some [9]) (\<lambda>spend_pub k fee total unspent. Inr ''{}'')
     (Inr example_request) (Inr (example_reader (\<lambda>i. Inr []))) False
   = (True, Inl (Lws kNoSuchAccount))"
proof -
  have 1: "key_check (\<lambda>k. Some [9]) (req_address example_request) (req_view_key example_request)"
    by (simp add: key_check_def example_request_def)
  have 2: "get_account (example_reader (\<lambda>i. Inr [])) (req_address example_request)
           = Inr (kActive, example_db_account)"
    by (simp add: example_reader_def)
  have 3: "\<not> is_hidden kActive" by (simp add: is_hidden_def)
  have 4: "get_outputs (example_reader (\<lambda>i. Inr [])) (acc_id example_db_account)
           = Inr [example_output]"
    by (simp add: example_reader_def)
  have p: "passing example_request [example_output] = [example_output]"
    by (simp add: passing_def dust_threshold_of_def mixin_of_def example_request_def)
  have 5: "\<forall>out \<in> set (passing example_request [example_output]).
             \<exists>found. get_spends (example_reader (\<lambda>i. Inr [])) (out_id out) = Inr found"
    by (simp add: example_reader_def)
  have 6: "sum_list (map (\<lambda>out. unat (amount out)) (passing example_request [example_output]))
           < unat (req_amount example_request)"
    unfolding p by (simp add: example_output_def example_request_def)
  show ?thesis
    by (rule get_unspent_outs_insufficient[OF refl 1 refl 2 3 4 5 6])
qed

text \<open>
  When \<open>get_spends\<close> fails for a passing output, the handler returns that error and not
  \<open>kNoSuchAccount\<close>, although the total (5) is below the requested amount (10).
\<close>

theorem get_unspent_outs_spends_error_counterexample:
  "get_unspent_outs (\<lambda>k. Some [9]) (\<lambda>spend_pub k fee total unspent. Inr ''{}'')
     (Inr example_request) (Inr (example_reader (\<lambda>i. Inl (Other_error 1)))) False
   = (True, Inl (Other_error 1))"
  by (simp add: get_unspent_outs_def key_check_def example_request_def example_reader_def
      is_hidden_def example_output_def)

end
